theory Spec2Isabelle
  imports Main "HOL-Library.AList" "HOL-Library.Sublist" "HOL-Library.Multiset"
begin

section \<open>Message normalisation: the record built by processEmail\<close>

text \<open>
  The parser (simpleParser) is an external library; a parsed message is its result.
  An optional JavaScript property is an \<open>option\<close>: \<open>None\<close> is undefined.
  The operator \<open>x || d\<close> takes \<open>d\<close> when \<open>x\<close> is falsy: undefined, the empty
  string, or the number 0.
\<close>

record AddressObject =
  addr_text :: "string option"
  addr_address :: "string option"

datatype address_field = Single AddressObject | Many "AddressObject option list"

record Attachment =
  att_filename :: "string option"
  att_contentType :: "string option"
  att_size :: "nat option"

record ParsedMail =
  mail_messageId :: "string option"
  mail_subject :: "string option"
  mail_from :: "AddressObject option"
  mail_to :: "address_field option"
  mail_cc :: "address_field option"
  mail_bcc :: "address_field option"
  mail_date :: "nat option"
  mail_text :: "string option"
  mail_html :: "string option"
  mail_attachments :: "Attachment list option"

record DocAttachment =
  filename :: string
  contentType :: string
  size_att :: nat

record EmailDocument =
  doc_id :: string
  accountId :: string
  messageId :: string
  subject :: string
  from_text :: string
  to_addrs :: "string list"
  cc :: "string list option"
  bcc :: "string list option"
  date :: nat
  body :: string
  htmlBody :: "string option"
  attachments :: "DocAttachment list option"
  flags :: "string list"
  uid :: nat
  folder :: string
  indexedAt :: nat

definition truthy :: "string option \<Rightarrow> bool" where
  "truthy s = (case s of None \<Rightarrow> False | Some t \<Rightarrow> t \<noteq> [])"

definition or_string :: "string option \<Rightarrow> string \<Rightarrow> string" where
  "or_string s d = (case s of None \<Rightarrow> d | Some t \<Rightarrow> if t = [] then d else t)"

definition or_nat :: "nat option \<Rightarrow> nat \<Rightarrow> nat" where
  "or_nat n d = (case n of None \<Rightarrow> d | Some k \<Rightarrow> if k = 0 then d else k)"

text \<open>A sequence number inside a template literal is printed in decimal.\<close>

definition digit_char :: "nat \<Rightarrow> char" where
  "digit_char d = ''0123456789'' ! d"

fun string_of_nat :: "nat \<Rightarrow> string" where
  "string_of_nat n =
     (if n < 10 then [digit_char n] else string_of_nat (n div 10) @ [digit_char (n mod 10)])"

declare string_of_nat.simps [simp del]

text \<open>\<open>a?.text || a?.address\<close>\<close>

definition addr_label :: "AddressObject option \<Rightarrow> string option" where
  "addr_label a =
     (case a of None \<Rightarrow> None
      | Some x \<Rightarrow> if truthy (addr_text x) then addr_text x else addr_address x)"

text \<open>\<open>.filter(Boolean)\<close> on a list of strings that may be undefined\<close>

fun filterBoolean :: "string option list \<Rightarrow> string list" where
  "filterBoolean [] = []"
| "filterBoolean (None # xs) = filterBoolean xs"
| "filterBoolean (Some s # xs) = (if s = [] then filterBoolean xs else s # filterBoolean xs)"

definition toArray :: "address_field option \<Rightarrow> string list" where
  "toArray addr =
     (case addr of None \<Rightarrow> []
      | Some (Many as) \<Rightarrow> filterBoolean (map addr_label as)
      | Some (Single a) \<Rightarrow> filterBoolean [addr_label (Some a)])"

text \<open>\<open>xs.length ? xs : undefined\<close>\<close>

definition nonempty_or_undefined :: "string list \<Rightarrow> string list option" where
  "nonempty_or_undefined xs = (if length xs \<noteq> 0 then Some xs else None)"

definition docAttachment :: "Attachment \<Rightarrow> DocAttachment" where
  "docAttachment att =
     \<lparr> filename = or_string (att_filename att) ''unknown'',
       contentType = or_string (att_contentType att) ''application/octet-stream'',
       size_att = or_nat (att_size att) 0 \<rparr>"

text \<open>
  The object literal \<open>emailDoc\<close> of processEmail. \<open>aid\<close> is \<open>account.id\<close>; \<open>now\<close> and
  \<open>now'\<close> are the two readings of the clock (\<open>new Date()\<close>).
\<close>

definition emailDoc :: "string \<Rightarrow> ParsedMail \<Rightarrow> nat \<Rightarrow> nat \<Rightarrow> nat \<Rightarrow> EmailDocument" where
  "emailDoc aid parsed seqno now now' =
     \<lparr> doc_id = aid @ ''-'' @ (if truthy (mail_messageId parsed)
                                then the (mail_messageId parsed) else string_of_nat seqno),
       accountId = aid,
       messageId = or_string (mail_messageId parsed) '''',
       subject = or_string (mail_subject parsed) ''No Subject'',
       from_text = (case mail_from parsed of None \<Rightarrow> '''' | Some f \<Rightarrow> or_string (addr_text f) ''''),
       to_addrs = toArray (mail_to parsed),
       cc = nonempty_or_undefined (toArray (mail_cc parsed)),
       bcc = nonempty_or_undefined (toArray (mail_bcc parsed)),
       date = (case mail_date parsed of None \<Rightarrow> now | Some d \<Rightarrow> d),
       body = or_string (mail_text parsed) '''',
       htmlBody = mail_html parsed,
       attachments = map_option (map docAttachment) (mail_attachments parsed),
       flags = [],
       uid = seqno,
       folder = ''INBOX'',
       indexedAt = now' \<rparr>"

text \<open>
  What the words "addresses present" of a header field mean: some entry of the field
  carries a non-empty display text or a non-empty address.
\<close>

definition field_entries :: "address_field option \<Rightarrow> AddressObject list" where
  "field_entries addr =
     (case addr of None \<Rightarrow> []
      | Some (Single a) \<Rightarrow> [a]
      | Some (Many as) \<Rightarrow> concat (map (\<lambda>a. case a of None \<Rightarrow> [] | Some x \<Rightarrow> [x]) as))"

definition has_address :: "AddressObject \<Rightarrow> bool" where
  "has_address a = (truthy (addr_text a) \<or> truthy (addr_address a))"

definition addresses_present :: "address_field option \<Rightarrow> bool" where
  "addresses_present addr = list_ex has_address (field_entries addr)"

text \<open>The string that stands for an entry: its display text, or else its address.\<close>

definition address_string :: "AddressObject \<Rightarrow> string" where
  "address_string a = (if truthy (addr_text a) then the (addr_text a) else the (addr_address a))"

section \<open>The synchronisation manager (class ImapSyncManager)\<close>

text \<open>
  Account objects are shared between the manager's map and the closures registered on
  connections and timers, so they live in an explicit store: an address is an index into
  \<open>heap\<close>, and a new object is appended (its address is fresh by construction).
  Connections are numbered the same way; \<open>conns\<close> holds, for each connection, the account
  its listeners close over and which listeners are still registered (\<open>once\<close> listeners
  are removed when they run). \<open>timers\<close> are the timers pending in the event loop,
  \<open>pending\<close> the callbacks the IMAP library still owes, \<open>jobs\<close> the calls of
  processEmail that wait at one of their awaits, \<open>trace\<close> the calls made to the library
  (those that returned) and to the timer functions, \<open>logged\<close> the lines written with
  console.error, \<open>sink\<close> the documents indexEmail has stored and \<open>classified\<close> the
  requests handed to the classifier.
\<close>

type_synonym addr = nat
type_synonym conn = nat
type_synonym timer = nat

record keepalive_opts =
  interval :: "nat option"
  idleInterval :: "nat option"
  forceNoop :: "bool option"

record ImapConfig =
  user :: string
  password :: string
  host :: string
  port :: "nat option"
  tls :: "bool option"
  tlsOptions :: "string option"
  keepalive :: "keepalive_opts option"

record ImapAccount =
  account_id :: string
  config :: ImapConfig
  connection :: "conn option"
  isConnected :: bool
  reconnectAttempts :: nat
  maxReconnectAttempts :: nat
  reconnectDelay :: nat
  watchdogTimer :: "timer option"
  idleTimer :: "timer option"

datatype timer_kind = WatchdogT | RestartIdleT | ReconnectT

record pending_timer =
  tid :: timer
  kind :: timer_kind
  timer_owner :: addr
  delay :: nat

record listeners =
  owner :: addr
  readyOnce :: bool
  errorOnce :: bool
  endOnce :: bool
  mailOn :: bool

datatype request = ROpenBox | RNoop | RSearch | RFetch

datatype effect =
    Connect conn
  | OpenBox conn
  | Idle conn
  | IdleStop conn
  | Search conn
  | Fetch conn "nat list"
  | Noop conn
  | EndCall conn
  | SetTimer timer timer_kind addr nat
  | ClearTimer timer

record ClassificationRequest =
  emailId :: string
  req_accountId :: string
  req_subject :: string
  req_body :: string
  req_from :: string
  req_to :: "string list"

text \<open>
  One fetched message as processEmail meets it: its sequence number, what simpleParser
  gives (\<open>None\<close>: it rejects), whether indexEmail and the classifier resolve, and the
  two readings of the clock.
\<close>

record fetched =
  seqno :: nat
  parsed :: "ParsedMail option"
  indexOk :: bool
  classifyOk :: bool
  clock :: nat
  clock_indexed :: nat

text \<open>
  processEmail is async and its caller does not await it: a call runs up to
  \<open>await simpleParser\<close>, goes on when the parser settles up to \<open>await indexEmail\<close>, and
  again when the index settles up to the awaited call of the classifier. A job is a call
  waiting at one of the three awaits, with what it holds by then.
\<close>

datatype job =
    Parse addr fetched
  | Index addr fetched EmailDocument
  | Classify addr fetched EmailDocument

text \<open>The console.error lines, with the account id (or the document id) they print.\<close>

datatype log_line =
    LogImapError string
  | LogWatchdogFailed string
  | LogOpenBoxFailed string
  | LogSearchFailed string
  | LogFetchError string
  | LogFetchThrew string
  | LogProcessFailed string
  | LogClassifyFailed string
  | LogMaxReconnect string

record world =
  accounts :: "(string \<times> addr) list"
  heap :: "ImapAccount list"
  conns :: "listeners list"
  timers :: "pending_timer list"
  timer_count :: nat
  pending :: "(request \<times> addr) list"
  jobs :: "job list"
  trace :: "effect list"
  logged :: "log_line list"
  sink :: "EmailDocument list"
  classified :: "ClassificationRequest list"

definition WATCHDOG_INTERVAL :: nat where "WATCHDOG_INTERVAL = 29 * 60 * 1000"
definition IDLE_TIMEOUT :: nat where "IDLE_TIMEOUT = 30 * 60 * 1000"
definition MAX_RECONNECT_ATTEMPTS :: nat where "MAX_RECONNECT_ATTEMPTS = 5"
definition INITIAL_RECONNECT_DELAY :: nat where "INITIAL_RECONNECT_DELAY = 1000"

text \<open>The manager as constructed: no account, nothing pending.\<close>

definition init :: world where
  "init = \<lparr> accounts = [], heap = [], conns = [], timers = [], timer_count = 0,
            pending = [], jobs = [], trace = [], logged = [], sink = [], classified = [] \<rparr>"

definition account :: "world \<Rightarrow> addr \<Rightarrow> ImapAccount" where
  "account w a = heap w ! a"

definition update_account :: "addr \<Rightarrow> (ImapAccount \<Rightarrow> ImapAccount) \<Rightarrow> world \<Rightarrow> world" where
  "update_account a f w = w\<lparr>heap := (heap w)[a := f (heap w ! a)]\<rparr>"

definition emit :: "effect \<Rightarrow> world \<Rightarrow> world" where
  "emit e w = w\<lparr>trace := trace w @ [e]\<rparr>"

definition request :: "request \<Rightarrow> addr \<Rightarrow> world \<Rightarrow> world" where
  "request r a w = w\<lparr>pending := pending w @ [(r, a)]\<rparr>"

definition console_error :: "log_line \<Rightarrow> world \<Rightarrow> world" where
  "console_error l w = w\<lparr>logged := logged w @ [l]\<rparr>"

text \<open>setTimeout and setInterval: a new handle, pending until it is cleared or fires.\<close>

definition setTimer :: "timer_kind \<Rightarrow> addr \<Rightarrow> nat \<Rightarrow> world \<Rightarrow> world" where
  "setTimer k a d w =
     w\<lparr>timers := timers w @ [\<lparr>tid = timer_count w, kind = k, timer_owner = a, delay = d\<rparr>],
       timer_count := Suc (timer_count w),
       trace := trace w @ [SetTimer (timer_count w) k a d]\<rparr>"

text \<open>clearTimeout and clearInterval\<close>

definition clearTimer :: "timer \<Rightarrow> world \<Rightarrow> world" where
  "clearTimer t w =
     w\<lparr>timers := filter (\<lambda>p. tid p \<noteq> t) (timers w), trace := trace w @ [ClearTimer t]\<rparr>"

definition cleanupTimers :: "addr \<Rightarrow> world \<Rightarrow> world" where
  "cleanupTimers a w =
     (let w1 = (case watchdogTimer (account w a) of
                  None \<Rightarrow> w
                | Some t \<Rightarrow> update_account a (\<lambda>x. x\<lparr>watchdogTimer := None\<rparr>) (clearTimer t w));
          w2 = (case idleTimer (account w1 a) of
                  None \<Rightarrow> w1
                | Some t \<Rightarrow> update_account a (\<lambda>x. x\<lparr>idleTimer := None\<rparr>) (clearTimer t w1))
      in w2)"

definition setupEventHandlers :: "addr \<Rightarrow> world \<Rightarrow> world" where
  "setupEventHandlers a w =
     (case connection (account w a) of
        None \<Rightarrow> w
      | Some c \<Rightarrow> w\<lparr>conns := (conns w)[c := \<lparr>owner = a, readyOnce = True, errorOnce = True,
                                            endOnce = True, mailOn = True\<rparr>]\<rparr>)"

text \<open>
  connectAccount: \<open>new Imap\<close> makes connection number \<open>length (conns w)\<close>, with no
  listener yet. The constructor and \<open>connect\<close> are taken not to throw, so the catch
  branch (which only calls handleReconnect) is not entered.
\<close>

definition connectAccount :: "addr \<Rightarrow> world \<Rightarrow> world" where
  "connectAccount a w =
     (let c = length (conns w);
          w1 = w\<lparr>conns := conns w @ [\<lparr>owner = a, readyOnce = False, errorOnce = False,
                                      endOnce = False, mailOn = False\<rparr>]\<rparr>;
          w2 = update_account a (\<lambda>x. x\<lparr>connection := Some c\<rparr>) w1;
          w3 = setupEventHandlers a w2
      in emit (Connect c) w3)"

definition startImap_keepalive :: "keepalive_opts option \<Rightarrow> keepalive_opts" where
  "startImap_keepalive k =
     \<lparr> interval = Some (case Option.bind k interval of None \<Rightarrow> 10000 | Some v \<Rightarrow> v),
       idleInterval = Some (case Option.bind k idleInterval of None \<Rightarrow> 300000 | Some v \<Rightarrow> v),
       forceNoop = Some (case Option.bind k forceNoop of None \<Rightarrow> True | Some v \<Rightarrow> v) \<rparr>"

definition new_account :: "string \<Rightarrow> ImapConfig \<Rightarrow> ImapAccount" where
  "new_account accId cfg =
     \<lparr> account_id = accId,
       config = cfg\<lparr>keepalive := Some (startImap_keepalive (keepalive cfg))\<rparr>,
       connection = None,
       isConnected = False,
       reconnectAttempts = 0,
       maxReconnectAttempts = MAX_RECONNECT_ATTEMPTS,
       reconnectDelay = INITIAL_RECONNECT_DELAY,
       watchdogTimer = None,
       idleTimer = None \<rparr>"

text \<open>
  startImap has no check of the map before \<open>this.accounts.set\<close>: a Map's set replaces the
  value of an existing key in place and appends a new key.
\<close>

definition startImap :: "string \<Rightarrow> ImapConfig \<Rightarrow> world \<Rightarrow> world" where
  "startImap accId cfg w =
     (let a = length (heap w);
          w1 = w\<lparr>heap := heap w @ [new_account accId cfg]\<rparr>;
          w2 = w1\<lparr>accounts := AList.update accId a (accounts w1)\<rparr>
      in connectAccount a w2)"

definition startWatchdog :: "addr \<Rightarrow> world \<Rightarrow> world" where
  "startWatchdog a w =
     update_account a (\<lambda>x. x\<lparr>watchdogTimer := Some (timer_count w)\<rparr>)
       (setTimer WatchdogT a WATCHDOG_INTERVAL w)"

definition startIdleMonitoring :: "addr \<Rightarrow> world \<Rightarrow> world" where
  "startIdleMonitoring a w =
     (case connection (account w a) of
        None \<Rightarrow> w
      | Some c \<Rightarrow> if \<not> isConnected (account w a) then w
                  else request ROpenBox a (emit (OpenBox c) w))"

text \<open>The callback of openBox: on success, \<open>idle()\<close> on the account's connection.\<close>

definition onOpenBox :: "addr \<Rightarrow> bool \<Rightarrow> world \<Rightarrow> world" where
  "onOpenBox a err w =
     (if err then console_error (LogOpenBoxFailed (account_id (account w a))) w
      else case connection (account w a) of None \<Rightarrow> w | Some c \<Rightarrow> emit (Idle c) w)"

definition restartIdle :: "addr \<Rightarrow> world \<Rightarrow> world" where
  "restartIdle a w =
     (if \<not> isConnected (account w a) \<or> connection (account w a) = None then w
      else setTimer RestartIdleT a 1000 w)"

text \<open>The function given to setTimeout by restartIdle.\<close>

definition restartIdle_fired :: "addr \<Rightarrow> world \<Rightarrow> world" where
  "restartIdle_fired a w =
     (case connection (account w a) of
        None \<Rightarrow> w
      | Some c \<Rightarrow> if isConnected (account w a) then emit (Idle c) w else w)"

definition handleReconnect :: "addr \<Rightarrow> world \<Rightarrow> world" where
  "handleReconnect a w =
     (if reconnectAttempts (account w a) \<ge> maxReconnectAttempts (account w a)
      then console_error (LogMaxReconnect (account_id (account w a))) w
      else
        let w1 = update_account a (\<lambda>x. x\<lparr>reconnectAttempts := reconnectAttempts x + 1\<rparr>) w;
            d = reconnectDelay (account w1 a) * 2 ^ (reconnectAttempts (account w1 a) - 1);
            w2 = cleanupTimers a w1
        in setTimer ReconnectT a d w2)"

text \<open>The function given to setInterval by startWatchdog, and the callback of noop.\<close>

definition watchdog_fired :: "addr \<Rightarrow> world \<Rightarrow> world" where
  "watchdog_fired a w =
     (case connection (account w a) of
        None \<Rightarrow> w
      | Some c \<Rightarrow> if isConnected (account w a) then request RNoop a (emit (Noop c) w) else w)"

definition onNoop :: "addr \<Rightarrow> bool \<Rightarrow> world \<Rightarrow> world" where
  "onNoop a err w =
     (if err
      then handleReconnect a
             (update_account a (\<lambda>x. x\<lparr>isConnected := False\<rparr>)
               (console_error (LogWatchdogFailed (account_id (account w a))) w))
      else w)"

text \<open>The listeners of setupEventHandlers.\<close>

definition onReady :: "addr \<Rightarrow> world \<Rightarrow> world" where
  "onReady a w =
     startIdleMonitoring a
       (startWatchdog a
         (update_account a (\<lambda>x. x\<lparr>isConnected := True, reconnectAttempts := 0,
                                   reconnectDelay := INITIAL_RECONNECT_DELAY\<rparr>) w))"

definition onError :: "addr \<Rightarrow> world \<Rightarrow> world" where
  "onError a w =
     handleReconnect a
       (update_account a (\<lambda>x. x\<lparr>isConnected := False\<rparr>)
         (console_error (LogImapError (account_id (account w a))) w))"

definition onEnd :: "addr \<Rightarrow> world \<Rightarrow> world" where
  "onEnd a w = cleanupTimers a (update_account a (\<lambda>x. x\<lparr>isConnected := False\<rparr>) w)"

text \<open>
  fetchNewEmails, up to the call of search. There is no test of a fetch cycle already
  running. The two library calls stand in a try: \<open>thrown\<close> says which of them throws, if
  any (the library decides), and then the catch logs and calls restartIdle, and no
  search is under way.
\<close>

datatype lib_call = CallIdleStop | CallSearch

definition fetchNewEmails :: "addr \<Rightarrow> lib_call option \<Rightarrow> world \<Rightarrow> world" where
  "fetchNewEmails a thrown w =
     (case connection (account w a) of
        None \<Rightarrow> w
      | Some c \<Rightarrow>
          if \<not> isConnected (account w a) then w
          else case thrown of
            None \<Rightarrow> request RSearch a (emit (Search c) (emit (IdleStop c) w))
          | Some CallIdleStop \<Rightarrow>
              restartIdle a (console_error (LogFetchThrew (account_id (account w a))) w)
          | Some CallSearch \<Rightarrow>
              restartIdle a (console_error (LogFetchThrew (account_id (account w a)))
                (emit (IdleStop c) w)))"

text \<open>\<open>results.slice(-n)\<close>\<close>

definition slice_last :: "nat \<Rightarrow> 'a list \<Rightarrow> 'a list" where
  "slice_last n xs = drop (length xs - n) xs"

text \<open>
  The callback of search. \<open>results\<close> is \<open>None\<close> when the library passes no list.
  A search was sent on the account's connection, so it has one.
\<close>

definition onSearch :: "addr \<Rightarrow> bool \<Rightarrow> nat list option \<Rightarrow> world \<Rightarrow> world" where
  "onSearch a err results w =
     (if err then restartIdle a (console_error (LogSearchFailed (account_id (account w a))) w)
      else case results of
        None \<Rightarrow> restartIdle a w
      | Some rs \<Rightarrow>
          if length rs > 0 then
            (case connection (account w a) of
               None \<Rightarrow> w
             | Some c \<Rightarrow> request RFetch a (emit (Fetch c (slice_last 10 rs)) w))
          else restartIdle a w)"

definition classificationRequest :: "EmailDocument \<Rightarrow> ClassificationRequest" where
  "classificationRequest d =
     \<lparr> emailId = doc_id d, req_accountId = accountId d, req_subject = subject d,
       req_body = body d, req_from = from_text d, req_to = to_addrs d \<rparr>"

text \<open>processEmail, from its call to \<open>await simpleParser\<close>.\<close>

definition processEmail :: "addr \<Rightarrow> fetched \<Rightarrow> world \<Rightarrow> world" where
  "processEmail a m w = w\<lparr>jobs := jobs w @ [Parse a m]\<rparr>"

text \<open>
  The parser has settled. When it rejects, the outer catch logs. Otherwise the record
  is built and indexEmail is called and awaited.
\<close>

definition processEmail_parsed :: "addr \<Rightarrow> fetched \<Rightarrow> world \<Rightarrow> world" where
  "processEmail_parsed a m w =
     (case parsed m of
        None \<Rightarrow> console_error (LogProcessFailed (account_id (account w a))) w
      | Some p \<Rightarrow>
          w\<lparr>jobs := jobs w @
                [Index a m (emailDoc (account_id (account w a)) p (seqno m) (clock m)
                              (clock_indexed m))]\<rparr>)"

text \<open>
  indexEmail has settled. When it rejects, the outer catch logs and nothing is stored
  or classified. Otherwise the document is in the sink, and the classifier is called
  and awaited.
\<close>

definition processEmail_indexed :: "addr \<Rightarrow> fetched \<Rightarrow> EmailDocument \<Rightarrow> world \<Rightarrow> world" where
  "processEmail_indexed a m d w =
     (if indexOk m
      then w\<lparr>sink := sink w @ [d],
             classified := classified w @ [classificationRequest d],
             jobs := jobs w @ [Classify a m d]\<rparr>
      else console_error (LogProcessFailed (account_id (account w a))) w)"

text \<open>The classifier has settled. When it rejects, the inner catch logs.\<close>

definition processEmail_classified :: "addr \<Rightarrow> fetched \<Rightarrow> EmailDocument \<Rightarrow> world \<Rightarrow> world" where
  "processEmail_classified a m d w =
     (if classifyOk m then w else console_error (LogClassifyFailed (doc_id d)) w)"

fun resume :: "job \<Rightarrow> world \<Rightarrow> world" where
  "resume (Parse a m) w = processEmail_parsed a m w"
| "resume (Index a m d) w = processEmail_indexed a m d w"
| "resume (Classify a m d) w = processEmail_classified a m d w"

definition onFetchEnd :: "addr \<Rightarrow> world \<Rightarrow> world" where
  "onFetchEnd a w = restartIdle a w"

definition stopImap :: "string \<Rightarrow> world \<Rightarrow> world" where
  "stopImap accId w =
     (case map_of (accounts w) accId of
        None \<Rightarrow> w
      | Some a \<Rightarrow>
          let w1 = cleanupTimers a w;
              w2 = (case connection (account w1 a) of
                      None \<Rightarrow> w1
                    | Some c \<Rightarrow> if isConnected (account w1 a) then emit (EndCall c) w1 else w1)
          in w2\<lparr>accounts := AList.delete accId (accounts w2)\<rparr>)"

definition stopAll :: "world \<Rightarrow> world" where
  "stopAll w = fold stopImap (map fst (accounts w)) w"

definition getAccountStatus :: "string \<Rightarrow> world \<Rightarrow> (bool \<times> nat) option" where
  "getAccountStatus accId w =
     (case map_of (accounts w) accId of
        None \<Rightarrow> None
      | Some a \<Rightarrow> Some (isConnected (account w a), reconnectAttempts (account w a)))"

section \<open>The event loop\<close>

text \<open>
  What the runtime can deliver, in any order: an event of a connection (it runs the
  listeners still registered on that connection), a timer that fires (if it is still
  pending), the callback of a request the library still owes, and an awaited promise of
  processEmail that settles (\<open>JobDone\<close>). \<open>FetchMessage\<close> is the end of the body stream
  of a fetched message, whose listener calls processEmail whenever it runs, before or
  after the end of the fetch. \<open>MailEv\<close> is a mail event during which idleStop and search
  return, \<open>MailThrows\<close> one during which the named call throws. An event with no
  listener, a timer that was cleared, a callback that is not owed and a job that is not
  waiting change nothing. (The emitter raises an error event that has no listener left;
  whether the library emits a second error on one connection or on one fetch is its own
  matter, and the model takes a second error of a connection as not delivered.)
\<close>

datatype event =
    ReadyEv conn
  | ErrorEv conn
  | EndEv conn
  | MailEv conn
  | MailThrows conn lib_call
  | ExpungeEv conn nat
  | TimerFire timer
  | OpenBoxDone addr bool
  | NoopDone addr bool
  | SearchDone addr bool "nat list option"
  | FetchMessage addr fetched
  | FetchError addr
  | FetchEnd addr
  | JobDone job

definition owed :: "request \<Rightarrow> addr \<Rightarrow> world \<Rightarrow> bool" where
  "owed r a w = ((r, a) \<in> set (pending w))"

definition answered :: "request \<Rightarrow> addr \<Rightarrow> world \<Rightarrow> world" where
  "answered r a w = w\<lparr>pending := remove1 (r, a) (pending w)\<rparr>"

definition expire :: "timer \<Rightarrow> world \<Rightarrow> world" where
  "expire t w = w\<lparr>timers := filter (\<lambda>q. tid q \<noteq> t) (timers w)\<rparr>"

fun step :: "event \<Rightarrow> world \<Rightarrow> world" where
  "step (ReadyEv c) w =
     (if c < length (conns w) \<and> readyOnce (conns w ! c)
      then onReady (owner (conns w ! c))
             (w\<lparr>conns := (conns w)[c := (conns w ! c)\<lparr>readyOnce := False\<rparr>]\<rparr>)
      else w)"
| "step (ErrorEv c) w =
     (if c < length (conns w) \<and> errorOnce (conns w ! c)
      then onError (owner (conns w ! c))
             (w\<lparr>conns := (conns w)[c := (conns w ! c)\<lparr>errorOnce := False\<rparr>]\<rparr>)
      else w)"
| "step (EndEv c) w =
     (if c < length (conns w) \<and> endOnce (conns w ! c)
      then onEnd (owner (conns w ! c))
             (w\<lparr>conns := (conns w)[c := (conns w ! c)\<lparr>endOnce := False\<rparr>]\<rparr>)
      else w)"
| "step (MailEv c) w =
     (if c < length (conns w) \<and> mailOn (conns w ! c)
      then fetchNewEmails (owner (conns w ! c)) None w
      else w)"
| "step (MailThrows c l) w =
     (if c < length (conns w) \<and> mailOn (conns w ! c)
      then fetchNewEmails (owner (conns w ! c)) (Some l) w
      else w)"
| "step (ExpungeEv c n) w = w"
| "step (TimerFire t) w =
     (case find (\<lambda>p. tid p = t) (timers w) of
        None \<Rightarrow> w
      | Some p \<Rightarrow>
          (case kind p of
             WatchdogT \<Rightarrow> watchdog_fired (timer_owner p) w
           | RestartIdleT \<Rightarrow> restartIdle_fired (timer_owner p) (expire t w)
           | ReconnectT \<Rightarrow> connectAccount (timer_owner p) (expire t w)))"
| "step (OpenBoxDone a err) w =
     (if owed ROpenBox a w then onOpenBox a err (answered ROpenBox a w) else w)"
| "step (NoopDone a err) w =
     (if owed RNoop a w then onNoop a err (answered RNoop a w) else w)"
| "step (SearchDone a err results) w =
     (if owed RSearch a w then onSearch a err results (answered RSearch a w) else w)"
| "step (FetchMessage a m) w = processEmail a m w"
| "step (FetchError a) w =
     (if owed RFetch a w then console_error (LogFetchError (account_id (account w a))) w
      else w)"
| "step (FetchEnd a) w = (if owed RFetch a w then onFetchEnd a (answered RFetch a w) else w)"
| "step (JobDone j) w =
     (if j \<in> set (jobs w) then resume j (w\<lparr>jobs := remove1 j (jobs w)\<rparr>) else w)"

definition run :: "event list \<Rightarrow> world \<Rightarrow> world" where
  "run evs w = fold step evs w"


section \<open>Scenarios\<close>

text \<open>
  \<open>n\<close> connection errors in a row, each followed by the reconnect it scheduled: the error
  on connection \<open>c\<close> schedules timer \<open>t\<close>, whose firing opens connection \<open>c + 1\<close>.
\<close>

fun error_rounds :: "conn \<Rightarrow> timer \<Rightarrow> nat \<Rightarrow> event list" where
  "error_rounds c t 0 = []"
| "error_rounds c t (Suc n) = ErrorEv c # TimerFire t # error_rounds (Suc c) (Suc t) n"

text \<open>A session is started in \<open>w\<close> and meets \<open>n\<close> such rounds.\<close>

definition after_failures :: "nat \<Rightarrow> string \<Rightarrow> ImapConfig \<Rightarrow> world \<Rightarrow> world" where
  "after_failures n accId cfg w =
     run (error_rounds (length (conns w)) (timer_count w) n) (startImap accId cfg w)"

text \<open>What such a run adds to the trace: the delay of each reconnect and its connect.\<close>

definition backoff_trace :: "addr \<Rightarrow> conn \<Rightarrow> timer \<Rightarrow> nat \<Rightarrow> nat \<Rightarrow> effect list" where
  "backoff_trace a c t k n =
     concat (map (\<lambda>i. [SetTimer (t + i) ReconnectT a (INITIAL_RECONNECT_DELAY * 2 ^ (k + i)),
                        Connect (Suc (c + i))]) [0..<n])"

text \<open>Timer handles are given out in increasing order: a pending timer has an older handle.\<close>

definition timers_fresh :: "world \<Rightarrow> bool" where
  "timers_fresh w = list_all (\<lambda>p. tid p < timer_count w) (timers w)"

text \<open>
  The account at \<open>a\<close> waits for its newest connection \<open>c\<close> to answer: it is not
  connected, \<open>k\<close> attempts have failed and no watchdog is running.
\<close>

definition connecting :: "world \<Rightarrow> addr \<Rightarrow> conn \<Rightarrow> nat \<Rightarrow> bool" where
  "connecting w a c k =
     (a < length (heap w) \<and> length (conns w) = Suc c \<and>
      conns w ! c = \<lparr>owner = a, readyOnce = True, errorOnce = True, endOnce = True,
                      mailOn = True\<rparr> \<and>
      connection (account w a) = Some c \<and> \<not> isConnected (account w a) \<and>
      reconnectAttempts (account w a) = k \<and>
      reconnectDelay (account w a) = INITIAL_RECONNECT_DELAY \<and>
      maxReconnectAttempts (account w a) = MAX_RECONNECT_ATTEMPTS \<and>
      watchdogTimer (account w a) = None \<and> idleTimer (account w a) = None \<and>
      timers_fresh w)"

text \<open>The account at \<open>a\<close> has used up its reconnect attempts and is not connected.\<close>

definition exhausted :: "world \<Rightarrow> addr \<Rightarrow> bool" where
  "exhausted w a =
     (a < length (heap w) \<and> \<not> isConnected (account w a) \<and>
      reconnectAttempts (account w a) \<ge> maxReconnectAttempts (account w a))"


text \<open>
  A batch being processed, in any order: the body of a message fetched for account \<open>a\<close>
  arrives, or an awaited promise of some call of processEmail settles. \<open>arrived\<close> are
  the messages whose bodies arrive.
\<close>

fun batch_event :: "addr \<Rightarrow> event \<Rightarrow> bool" where
  "batch_event a (FetchMessage b m) = (a = b)"
| "batch_event a (JobDone j) = True"
| "batch_event a e = False"

fun arrived :: "event list \<Rightarrow> fetched list" where
  "arrived [] = []"
| "arrived (FetchMessage b m # es) = m # arrived es"
| "arrived (e # es) = arrived es"

text \<open>
  A message is stored when it parses and indexEmail accepts it; \<open>doc_of\<close> is its record
  for the account id \<open>aid\<close>, and \<open>message_log\<close> what a failure of it writes to the log.
\<close>

definition stored :: "fetched \<Rightarrow> bool" where
  "stored m = (parsed m \<noteq> None \<and> indexOk m)"

definition doc_of :: "string \<Rightarrow> fetched \<Rightarrow> EmailDocument" where
  "doc_of aid m = emailDoc aid (the (parsed m)) (seqno m) (clock m) (clock_indexed m)"

definition message_log :: "string \<Rightarrow> fetched \<Rightarrow> log_line list" where
  "message_log aid m =
     (if \<not> stored m then [LogProcessFailed aid]
      else if \<not> classifyOk m then [LogClassifyFailed (doc_id (doc_of aid m))]
      else [])"

text \<open>What a waiting job will still add to the sink and to the log.\<close>

fun job_yield :: "ImapAccount list \<Rightarrow> job \<Rightarrow> EmailDocument list" where
  "job_yield h (Parse a m) = (if stored m then [doc_of (account_id (h ! a)) m] else [])"
| "job_yield h (Index a m d) = (if indexOk m then [d] else [])"
| "job_yield h (Classify a m d) = []"

fun job_log :: "ImapAccount list \<Rightarrow> job \<Rightarrow> log_line list" where
  "job_log h (Parse a m) = message_log (account_id (h ! a)) m"
| "job_log h (Index a m d) =
     (if \<not> indexOk m then [LogProcessFailed (account_id (h ! a))]
      else if \<not> classifyOk m then [LogClassifyFailed (doc_id d)]
      else [])"
| "job_log h (Classify a m d) = (if classifyOk m then [] else [LogClassifyFailed (doc_id d)])"

text \<open>Example inputs.\<close>

definition cfg0 :: ImapConfig where
  "cfg0 = \<lparr> user = ''user@example.com'', password = ''secret'', host = ''imap.example.com'',
            port = None, tls = None, tlsOptions = None, keepalive = None \<rparr>"

definition bare_mail :: ParsedMail where
  "bare_mail = \<lparr> mail_messageId = None, mail_subject = None, mail_from = None, mail_to = None,
                 mail_cc = None, mail_bcc = None, mail_date = None, mail_text = None,
                 mail_html = None,
                 mail_attachments = Some [\<lparr> att_filename = None, att_contentType = None,
                                            att_size = None \<rparr>] \<rparr>"

definition msg :: "nat \<Rightarrow> bool \<Rightarrow> fetched" where
  "msg n ok = \<lparr> seqno = n, parsed = (if ok then Some bare_mail else None), indexOk = True,
                classifyOk = True, clock = 0, clock_indexed = 0 \<rparr>"

text \<open>A batch m1..m10 whose fifth message does not parse.\<close>

definition batch10 :: "fetched list" where
  "batch10 = map (\<lambda>i. msg i (i \<noteq> 5)) [1..<11]"

text \<open>Account "acct-1" alone, connected and listening.\<close>

definition listening :: world where
  "listening = run [ReadyEv 0, OpenBoxDone 0 False] (startImap ''acct-1'' cfg0 init)"

text \<open>The bodies of \<open>batch10\<close> arrive in order; every promise settles in the reverse order.\<close>

definition late_completions :: "event list" where
  "late_completions =
     map (\<lambda>m. JobDone (Parse 0 m)) (rev batch10) @
     map (\<lambda>m. JobDone (Index 0 m (doc_of ''acct-1'' m))) (filter stored (rev batch10)) @
     map (\<lambda>m. JobDone (Classify 0 m (doc_of ''acct-1'' m))) (filter stored (rev batch10))"

text \<open>
  Account "acct-1" was listening, its watchdog probe failed, and the five reconnect
  attempts failed with an error each. The first connection never had an error: its
  error listener is still registered.
\<close>

definition worn_out :: world where
  "worn_out =
     run [ReadyEv 0, OpenBoxDone 0 False, TimerFire 0, NoopDone 0 True,
          TimerFire 1, ErrorEv 1, TimerFire 2, ErrorEv 2, TimerFire 3, ErrorEv 3,
          TimerFire 4, ErrorEv 4, TimerFire 5, ErrorEv 5]
       (startImap ''acct-1'' cfg0 init)"

section \<open>Normalisation\<close>

lemma filterBoolean_label:
  "filterBoolean (addr_label (Some x) # rest) =
     (if has_address x then address_string x # filterBoolean rest else filterBoolean rest)"
  by (cases "addr_text x"; cases "addr_address x")
     (simp_all add: addr_label_def has_address_def truthy_def address_string_def)

lemma filterBoolean_entries:
  "filterBoolean (map addr_label as) =
   map address_string (filter has_address
     (concat (map (\<lambda>a. case a of None \<Rightarrow> [] | Some x \<Rightarrow> [x]) as)))"
proof (induction as)
  case Nil
  show ?case by simp
next
  case (Cons a as)
  show ?case
  proof (cases a)
    case None
    with Cons show ?thesis by (simp add: addr_label_def)
  next
    case (Some x)
    with Cons show ?thesis by (simp add: filterBoolean_label)
  qed
qed

lemma toArray_entries:
  "toArray f = map address_string (filter has_address (field_entries f))"
proof (cases f)
  case None
  then show ?thesis by (simp add: toArray_def field_entries_def)
next
  case (Some g)
  show ?thesis
  proof (cases g)
    case (Single x)
    with Some show ?thesis
      by (simp add: toArray_def field_entries_def filterBoolean_label)
  next
    case (Many as)
    with Some show ?thesis
      by (simp add: toArray_def field_entries_def filterBoolean_entries)
  qed
qed

lemma toArray_empty: "toArray f = [] \<longleftrightarrow> \<not> addresses_present f"
  by (simp add: toArray_entries addresses_present_def list_ex_iff filter_empty_conv)

text \<open>
  C8. For every parsed message, \<open>to\<close> of the record is always a list: the strings of the
  entries of the header that carry an address, in order, whether the header is a single
  address object, a list of them, or missing. \<open>cc\<close> and \<open>bcc\<close> are built the same way
  and are left out (undefined, never the empty list) exactly when the header has no
  address.
\<close>

theorem recipients_normalised:
  "to_addrs (emailDoc aid p n t t') = map address_string (filter has_address (field_entries (mail_to p)))
   \<and> cc (emailDoc aid p n t t') =
       (if addresses_present (mail_cc p)
        then Some (map address_string (filter has_address (field_entries (mail_cc p)))) else None)
   \<and> bcc (emailDoc aid p n t t') =
       (if addresses_present (mail_bcc p)
        then Some (map address_string (filter has_address (field_entries (mail_bcc p)))) else None)
   \<and> (cc (emailDoc aid p n t t') = None \<longleftrightarrow> \<not> addresses_present (mail_cc p))
   \<and> (bcc (emailDoc aid p n t t') = None \<longleftrightarrow> \<not> addresses_present (mail_bcc p))
   \<and> cc (emailDoc aid p n t t') \<noteq> Some []
   \<and> bcc (emailDoc aid p n t t') \<noteq> Some []"
  using toArray_empty [of "mail_cc p"] toArray_empty [of "mail_bcc p"]
  by (simp add: emailDoc_def nonempty_or_undefined_def toArray_entries)

text \<open>
  C10. For every message that parses, the record is built whatever is missing, and is
  stored when indexEmail accepts it (the call of processEmail, then its parser and its
  index settling): its id ends in the sequence number when the message-id is missing or
  empty (and in the message-id otherwise), the subject defaults to 'No Subject', the
  sender and the plain body to the empty string, and the filename, content type and size
  of an attachment to 'unknown', 'application/octet-stream' and 0.
\<close>

theorem normalisation_defaults:
  "(parsed m = Some p \<longrightarrow> indexOk m \<longrightarrow>
      sink (run [JobDone (Parse a m),
                 JobDone (Index a m (emailDoc (account_id (account w a)) p (seqno m) (clock m)
                                       (clock_indexed m)))]
              (processEmail a m w)) =
        sink w @ [emailDoc (account_id (account w a)) p (seqno m) (clock m) (clock_indexed m)])
   \<and> (\<not> truthy (mail_messageId p) \<longrightarrow>
        doc_id (emailDoc aid p n t t') = aid @ ''-'' @ string_of_nat n
        \<and> messageId (emailDoc aid p n t t') = '''')
   \<and> (truthy (mail_messageId p) \<longrightarrow>
        doc_id (emailDoc aid p n t t') = aid @ ''-'' @ the (mail_messageId p))
   \<and> (\<not> truthy (mail_subject p) \<longrightarrow> subject (emailDoc aid p n t t') = ''No Subject'')
   \<and> (mail_from p = None \<or> \<not> truthy (addr_text (the (mail_from p))) \<longrightarrow>
        from_text (emailDoc aid p n t t') = '''')
   \<and> (\<not> truthy (mail_text p) \<longrightarrow> body (emailDoc aid p n t t') = '''')
   \<and> (mail_attachments p = Some atts \<longrightarrow>
        attachments (emailDoc aid p n t t') = Some (map docAttachment atts))
   \<and> (\<not> truthy (att_filename att) \<longrightarrow> filename (docAttachment att) = ''unknown'')
   \<and> (\<not> truthy (att_contentType att) \<longrightarrow>
        contentType (docAttachment att) = ''application/octet-stream'')
   \<and> (att_size att = None \<or> att_size att = Some 0 \<longrightarrow> size_att (docAttachment att) = 0)"
proof (intro conjI impI)
  assume "parsed m = Some p" and "indexOk m"
  then show "sink (run [JobDone (Parse a m),
                 JobDone (Index a m (emailDoc (account_id (account w a)) p (seqno m) (clock m)
                                       (clock_indexed m)))]
              (processEmail a m w)) =
      sink w @ [emailDoc (account_id (account w a)) p (seqno m) (clock m) (clock_indexed m)]"
    by (simp add: run_def processEmail_def processEmail_parsed_def processEmail_indexed_def
          account_def)
next
  assume "mail_from p = None \<or> \<not> truthy (addr_text (the (mail_from p)))"
  then show "from_text (emailDoc aid p n t t') = []"
    by (cases "mail_from p") (auto simp: emailDoc_def truthy_def or_string_def split: option.splits)
next
  assume "att_size att = None \<or> att_size att = Some 0"
  then show "size_att (docAttachment att) = 0"
    by (auto simp: docAttachment_def or_nat_def)
qed (simp_all add: emailDoc_def truthy_def or_string_def docAttachment_def
      split: option.splits)

theorem normalisation_defaults_witness:
  "sink (run [JobDone (Parse 0 (msg 7 True)),
              JobDone (Index 0 (msg 7 True) (emailDoc ''acct-1'' bare_mail 7 0 0))]
          (processEmail 0 (msg 7 True) (startImap ''acct-1'' cfg0 init))) =
     [emailDoc ''acct-1'' bare_mail 7 0 0]
   \<and> doc_id (emailDoc ''acct-1'' bare_mail 7 0 0) = ''acct-1-7''
   \<and> messageId (emailDoc ''acct-1'' bare_mail 7 0 0) = ''''
   \<and> subject (emailDoc ''acct-1'' bare_mail 7 0 0) = ''No Subject''
   \<and> from_text (emailDoc ''acct-1'' bare_mail 7 0 0) = ''''
   \<and> body (emailDoc ''acct-1'' bare_mail 7 0 0) = ''''
   \<and> attachments (emailDoc ''acct-1'' bare_mail 7 0 0) =
       Some [\<lparr>filename = ''unknown'', contentType = ''application/octet-stream'', size_att = 0\<rparr>]"
  using normalisation_defaults [of "msg 7 True" bare_mail 0 "startImap ''acct-1'' cfg0 init"
      "''acct-1''" 7 0 0 "the (mail_attachments bare_mail)"
      "\<lparr>att_filename = None, att_contentType = None, att_size = None\<rparr>"]
  by (simp add: msg_def bare_mail_def truthy_def digit_char_def string_of_nat.simps startImap_def init_def
        connectAccount_def new_account_def update_account_def setupEventHandlers_def
        account_def emit_def)

section \<open>The manager: start, ready, signals\<close>

lemmas store_defs = account_def update_account_def emit_def request_def setTimer_def
  clearTimer_def expire_def owed_def answered_def console_error_def

lemma run_Nil: "run [] w = w"
  by (simp add: run_def)

lemma run_Cons: "run (e # es) w = run es (step e w)"
  by (simp add: run_def)

lemma run_append: "run (xs @ ys) w = run ys (run xs w)"
  by (simp add: run_def)

lemma startImap_world:
  "startImap accId cfg w =
     w\<lparr>accounts := AList.update accId (length (heap w)) (accounts w),
       heap := heap w @ [(new_account accId cfg)\<lparr>connection := Some (length (conns w))\<rparr>],
       conns := conns w @ [\<lparr>owner = length (heap w), readyOnce = True, errorOnce = True,
                             endOnce = True, mailOn = True\<rparr>],
       trace := trace w @ [Connect (length (conns w))]\<rparr>"
  by (simp add: startImap_def connectAccount_def setupEventHandlers_def store_defs Let_def)

text \<open>
  C1, as the code has it. startImap has no failure: for every account id, with an active
  session or without, it makes a new session object (not connected, no attempt made),
  puts it in the map under the id, replacing what was there, and starts a connection for
  it. The objects already in the store, their listeners and their timers stay as they
  were.
\<close>

theorem startImap_always_starts:
  "map_of (accounts (startImap accId cfg w)) accId = Some (length (heap w))
   \<and> heap (startImap accId cfg w) =
       heap w @ [(new_account accId cfg)\<lparr>connection := Some (length (conns w))\<rparr>]
   \<and> conns (startImap accId cfg w) =
       conns w @ [\<lparr>owner = length (heap w), readyOnce = True, errorOnce = True,
                    endOnce = True, mailOn = True\<rparr>]
   \<and> trace (startImap accId cfg w) = trace w @ [Connect (length (conns w))]
   \<and> timers (startImap accId cfg w) = timers w
   \<and> pending (startImap accId cfg w) = pending w
   \<and> getAccountStatus accId (startImap accId cfg w) = Some (False, 0)"
  by (simp add: startImap_world getAccountStatus_def account_def new_account_def update_conv')

text \<open>
  C1 as stated fails: account "acct-1" is running and connected, and a second startImap
  for it does not fail and changes what the status query reports; a second connection
  is opened and the watchdog of the first session is still pending.
\<close>

theorem startImap_already_running_counterexample:
  "getAccountStatus ''acct-1'' (run [ReadyEv 0] (startImap ''acct-1'' cfg0 init)) = Some (True, 0)
   \<and> getAccountStatus ''acct-1''
        (startImap ''acct-1'' cfg0 (run [ReadyEv 0] (startImap ''acct-1'' cfg0 init)))
       = Some (False, 0)
   \<and> trace (startImap ''acct-1'' cfg0 (run [ReadyEv 0] (startImap ''acct-1'' cfg0 init)))
       = trace (run [ReadyEv 0] (startImap ''acct-1'' cfg0 init)) @ [Connect 1]
   \<and> map tid (timers (startImap ''acct-1'' cfg0 (run [ReadyEv 0] (startImap ''acct-1'' cfg0 init))))
       = [0]"
  by (simp add: run_def startImap_world init_def new_account_def getAccountStatus_def
        onReady_def startWatchdog_def startIdleMonitoring_def store_defs)

text \<open>
  C7. For every configuration and every state of the manager, startImap followed by the
  ready event of the connection it opened gives a session that the status query reports
  as connected with reconnectAttempts 0; the reconnect delay is the initial one, the
  watchdog is started and the mailbox is opened, and when the mailbox is open the
  connection is put into idle.
\<close>

theorem start_then_ready:
  "getAccountStatus accId (step (ReadyEv (length (conns w))) (startImap accId cfg w))
     = Some (True, 0)
   \<and> reconnectDelay (account (step (ReadyEv (length (conns w))) (startImap accId cfg w))
        (length (heap w))) = INITIAL_RECONNECT_DELAY
   \<and> trace (step (ReadyEv (length (conns w))) (startImap accId cfg w))
     = trace w @ [Connect (length (conns w)),
                  SetTimer (timer_count w) WatchdogT (length (heap w)) WATCHDOG_INTERVAL,
                  OpenBox (length (conns w))]
   \<and> trace (step (OpenBoxDone (length (heap w)) False)
              (step (ReadyEv (length (conns w))) (startImap accId cfg w)))
     = trace w @ [Connect (length (conns w)),
                  SetTimer (timer_count w) WatchdogT (length (heap w)) WATCHDOG_INTERVAL,
                  OpenBox (length (conns w)), Idle (length (conns w))]"
  by (simp add: startImap_world getAccountStatus_def new_account_def update_conv'
        onReady_def startWatchdog_def startIdleMonitoring_def onOpenBox_def store_defs)

section \<open>Reconnecting with backoff\<close>

lemma find_fresh_timer:
  "list_all (\<lambda>p. tid p < t) ts \<Longrightarrow> tid x = t \<Longrightarrow> find (\<lambda>p. tid p = t) (ts @ [x]) = Some x"
  by (induction ts) auto

lemma filter_old_timers:
  "list_all (\<lambda>p. tid p < t) ts \<Longrightarrow> filter (\<lambda>q. tid q \<noteq> t) ts = ts"
  by (induction ts) auto

lemma list_all_tid_Suc:
  "list_all (\<lambda>p. tid p < t) ts \<Longrightarrow> list_all (\<lambda>p. tid p < Suc t) ts"
  by (induction ts) auto

text \<open>One error on the newest connection of a connecting account, below the maximum.\<close>

lemma error_step:
  assumes "connecting w a c k" and "k < MAX_RECONNECT_ATTEMPTS"
  shows "step (ErrorEv c) w =
     w\<lparr>conns := (conns w)[c := (conns w ! c)\<lparr>errorOnce := False\<rparr>],
       heap := (heap w)[a := (heap w ! a)\<lparr>isConnected := False, reconnectAttempts := Suc k\<rparr>],
       timers := timers w @ [\<lparr>tid = timer_count w, kind = ReconnectT, timer_owner = a,
                               delay = INITIAL_RECONNECT_DELAY * 2 ^ k\<rparr>],
       timer_count := Suc (timer_count w),
       trace := trace w @ [SetTimer (timer_count w) ReconnectT a
                             (INITIAL_RECONNECT_DELAY * 2 ^ k)],
       logged := logged w @ [LogImapError (account_id (heap w ! a))]\<rparr>"
  using assms
  by (simp add: connecting_def onError_def handleReconnect_def cleanupTimers_def store_defs
        Let_def)

text \<open>The reconnect timer that the error scheduled fires: a new connection is opened.\<close>

lemma error_round:
  assumes "connecting w a c k" and "k < MAX_RECONNECT_ATTEMPTS"
  shows "step (TimerFire (timer_count w)) (step (ErrorEv c) w) =
     w\<lparr>conns := (conns w)[c := (conns w ! c)\<lparr>errorOnce := False\<rparr>] @
                 [\<lparr>owner = a, readyOnce = True, errorOnce = True, endOnce = True,
                   mailOn = True\<rparr>],
       heap := (heap w)[a := (heap w ! a)\<lparr>isConnected := False, reconnectAttempts := Suc k,
                                          connection := Some (Suc c)\<rparr>],
       timer_count := Suc (timer_count w),
       trace := trace w @ [SetTimer (timer_count w) ReconnectT a
                             (INITIAL_RECONNECT_DELAY * 2 ^ k), Connect (Suc c)],
       logged := logged w @ [LogImapError (account_id (heap w ! a))]\<rparr>"
proof -
  from assms(1) have fresh: "list_all (\<lambda>p. tid p < timer_count w) (timers w)"
    and a: "a < length (heap w)" and c: "length (conns w) = Suc c"
    by (simp_all add: connecting_def timers_fresh_def)
  show ?thesis
    unfolding error_step [OF assms]
    using a c
    by (simp add: find_fresh_timer [OF fresh] filter_old_timers [OF fresh]
          connectAccount_def setupEventHandlers_def store_defs Let_def list_update_append)
qed

lemma connecting_round:
  assumes "connecting w a c k" and "k < MAX_RECONNECT_ATTEMPTS"
  shows "connecting (step (TimerFire (timer_count w)) (step (ErrorEv c) w)) a (Suc c) (Suc k)"
proof -
  from assms(1) have fresh: "list_all (\<lambda>p. tid p < timer_count w) (timers w)"
    by (simp add: connecting_def timers_fresh_def)
  show ?thesis
    unfolding error_round [OF assms]
    using assms(1) list_all_tid_Suc [OF fresh]
    by (simp add: connecting_def timers_fresh_def account_def nth_append)
qed

lemma backoff_trace_Suc:
  "backoff_trace a c t k (Suc n) =
     SetTimer t ReconnectT a (INITIAL_RECONNECT_DELAY * 2 ^ k) # Connect (Suc c) #
     backoff_trace a (Suc c) (Suc t) (Suc k) n"
  by (simp add: backoff_trace_def map_upt_Suc del: upt_Suc)

lemma backoff_trace_0: "backoff_trace a c t k 0 = []"
  by (simp add: backoff_trace_def)

text \<open>\<open>n\<close> rounds, as long as the maximum is not passed.\<close>

lemma error_rounds_run:
  "connecting w a c k \<Longrightarrow> k + n \<le> MAX_RECONNECT_ATTEMPTS \<Longrightarrow>
   connecting (run (error_rounds c (timer_count w) n) w) a (c + n) (k + n)
   \<and> trace (run (error_rounds c (timer_count w) n) w) =
       trace w @ backoff_trace a c (timer_count w) k n
   \<and> timers (run (error_rounds c (timer_count w) n) w) = timers w
   \<and> timer_count (run (error_rounds c (timer_count w) n) w) = timer_count w + n
   \<and> accounts (run (error_rounds c (timer_count w) n) w) = accounts w
   \<and> pending (run (error_rounds c (timer_count w) n) w) = pending w
   \<and> length (heap (run (error_rounds c (timer_count w) n) w)) = length (heap w)
   \<and> account_id (heap (run (error_rounds c (timer_count w) n) w) ! a) = account_id (heap w ! a)
   \<and> logged (run (error_rounds c (timer_count w) n) w) =
       logged w @ replicate n (LogImapError (account_id (heap w ! a)))
   \<and> take c (conns (run (error_rounds c (timer_count w) n) w)) = take c (conns w)
   \<and> (\<forall>i < length (conns (run (error_rounds c (timer_count w) n) w)). c \<le> i \<longrightarrow>
        owner (conns (run (error_rounds c (timer_count w) n) w) ! i) = a)"
proof (induction n arbitrary: w c k)
  case 0
  then show ?case
    by (auto simp: run_def backoff_trace_0 connecting_def less_Suc_eq_le)
next
  case (Suc n)
  define w' where "w' = step (TimerFire (timer_count w)) (step (ErrorEv c) w)"
  from Suc.prems have k: "k < MAX_RECONNECT_ATTEMPTS" by simp
  have conn: "connecting w' a (Suc c) (Suc k)"
    unfolding w'_def by (rule connecting_round [OF Suc.prems(1) k])
  have shape: "timer_count w' = Suc (timer_count w)"
      "trace w' = trace w @ [SetTimer (timer_count w) ReconnectT a
                               (INITIAL_RECONNECT_DELAY * 2 ^ k), Connect (Suc c)]"
      "timers w' = timers w" "accounts w' = accounts w" "pending w' = pending w"
      "length (heap w') = length (heap w)"
      "conns w' = (conns w)[c := (conns w ! c)\<lparr>errorOnce := False\<rparr>] @
                 [\<lparr>owner = a, readyOnce = True, errorOnce = True, endOnce = True,
                   mailOn = True\<rparr>]"
      "logged w' = logged w @ [LogImapError (account_id (heap w ! a))]"
    unfolding w'_def error_round [OF Suc.prems(1) k] by simp_all
  from Suc.prems(1) have inb: "a < length (heap w)" by (simp add: connecting_def)
  have id': "account_id (heap w' ! a) = account_id (heap w ! a)"
    unfolding w'_def error_round [OF Suc.prems(1) k] using inb by simp
  from Suc.prems have bound: "Suc k + n \<le> MAX_RECONNECT_ATTEMPTS" by simp
  define r where "r = run (error_rounds (Suc c) (Suc (timer_count w)) n) w'"
  have run_eq: "run (error_rounds c (timer_count w) (Suc n)) w = r"
    by (simp add: run_def r_def w'_def)
  note IH = Suc.IH [OF conn bound, unfolded shape(1), folded r_def]
  from Suc.prems(1) have lc: "length (conns w) = Suc c" and oc: "owner (conns w ! c) = a"
    by (simp_all add: connecting_def)
  from IH have tk: "take (Suc c) (conns r) = take (Suc c) (conns w')" by simp
  from IH have len: "length (conns r) = Suc (Suc c + n)" by (simp add: connecting_def)
  have own_c: "owner (conns r ! c) = a"
  proof -
    have "conns r ! c = take (Suc c) (conns r) ! c" by simp
    also have "\<dots> = take (Suc c) (conns w') ! c" by (simp only: tk)
    also have "\<dots> = conns w' ! c" by simp
    finally show ?thesis using lc oc by (simp add: shape nth_append)
  qed
  have take_c: "take c (conns r) = take c (conns w)"
  proof -
    have "take c (conns r) = take c (take (Suc c) (conns r))" by (simp add: min_def)
    also have "\<dots> = take c (take (Suc c) (conns w'))" by (simp only: tk)
    also have "\<dots> = take c (conns w)" using lc by (simp add: shape min_def)
    finally show ?thesis .
  qed
  have owners: "\<forall>i < length (conns r). c \<le> i \<longrightarrow> owner (conns r ! i) = a"
  proof (intro allI impI)
    fix i assume i: "i < length (conns r)" and ci: "c \<le> i"
    show "owner (conns r ! i) = a"
    proof (cases "i = c")
      case True
      with own_c show ?thesis by simp
    next
      case False
      with ci have "Suc c \<le> i" by simp
      with IH i show ?thesis by blast
    qed
  qed
  from IH have c1: "connecting r a (c + Suc n) (k + Suc n)" by simp
  from IH have c2: "trace r = trace w @ backoff_trace a c (timer_count w) k (Suc n)"
    by (simp add: shape backoff_trace_Suc)
  from IH have c3: "timers r = timers w" "accounts r = accounts w" "pending r = pending w"
      "length (heap r) = length (heap w)" "timer_count r = timer_count w + Suc n"
      "account_id (heap r ! a) = account_id (heap w ! a)"
      "logged r = logged w @ replicate (Suc n) (LogImapError (account_id (heap w ! a)))"
    by (simp_all add: shape id' replicate_app_Cons_same)
  show ?case
    unfolding run_eq using c1 c2 c3 take_c owners by blast
qed

lemma startImap_connecting:
  "timers_fresh w \<Longrightarrow>
   connecting (startImap accId cfg w) (length (heap w)) (length (conns w)) 0"
  by (simp add: startImap_world connecting_def timers_fresh_def account_def new_account_def)

lemma ready_step:
  assumes "connecting w a c k"
  shows "heap (step (ReadyEv c) w) =
           (heap w)[a := (heap w ! a)\<lparr>isConnected := True, reconnectAttempts := 0,
                                      reconnectDelay := INITIAL_RECONNECT_DELAY,
                                      watchdogTimer := Some (timer_count w)\<rparr>]
         \<and> accounts (step (ReadyEv c) w) = accounts w"
  using assms
  by (simp add: connecting_def onReady_def startWatchdog_def startIdleMonitoring_def
        store_defs)

lemma backoff_trace_from_1:
  "backoff_trace a c t 0 n =
     concat (map (\<lambda>k. [SetTimer (t + (k - 1)) ReconnectT a
                          (INITIAL_RECONNECT_DELAY * 2 ^ (k - 1)), Connect (c + k)])
              [1..<Suc n])"
proof -
  have "[1..<Suc n] = map Suc [0..<n]"
    by (simp only: map_Suc_upt One_nat_def)
  then show ?thesis
    by (simp add: backoff_trace_def comp_def del: upt_Suc)
qed

text \<open>
  C3. A session is started in any state of the manager (whose pending timers have older
  handles) and meets \<open>n < 5\<close> connection errors in a row, each reconnect being made when
  its delay has passed. Then the reconnect attempts \<open>k = 1..n\<close> were scheduled with
  delay \<open>INITIAL_RECONNECT_DELAY * 2 ^ (k - 1)\<close>, each followed by its connect; the
  counter stands at \<open>n\<close>; and after the ready event of the newest connection the status
  query reports reconnectAttempts 0.
\<close>

theorem backoff_delays:
  assumes "n < 5" and "timers_fresh w"
  shows "trace (after_failures n accId cfg w) =
           trace w @ Connect (length (conns w)) #
             concat (map (\<lambda>k. [SetTimer (timer_count w + (k - 1)) ReconnectT (length (heap w))
                                  (INITIAL_RECONNECT_DELAY * 2 ^ (k - 1)),
                                Connect (length (conns w) + k)]) [1..<Suc n])
         \<and> getAccountStatus accId (after_failures n accId cfg w) = Some (False, n)
         \<and> getAccountStatus accId
             (step (ReadyEv (length (conns w) + n)) (after_failures n accId cfg w))
           = Some (True, 0)"
proof -
  define w0 where "w0 = startImap accId cfg w"
  define r where "r = run (error_rounds (length (conns w)) (timer_count w) n) w0"
  have r_eq: "after_failures n accId cfg w = r"
    by (simp only: after_failures_def r_def w0_def)
  have start: "connecting w0 (length (heap w)) (length (conns w)) 0"
    unfolding w0_def by (rule startImap_connecting [OF assms(2)])
  have w0: "timer_count w0 = timer_count w" "trace w0 = trace w @ [Connect (length (conns w))]"
      "map_of (accounts w0) accId = Some (length (heap w))"
    by (simp_all add: w0_def startImap_world update_conv')
  from assms(1) have "0 + n \<le> MAX_RECONNECT_ATTEMPTS"
    by (simp add: MAX_RECONNECT_ATTEMPTS_def)
  note R = error_rounds_run [OF start this, unfolded w0(1), folded r_def]
  from R have conn: "connecting r (length (heap w)) (length (conns w) + n) n" by simp
  from R have tr: "trace r = trace w @ Connect (length (conns w)) #
      backoff_trace (length (heap w)) (length (conns w)) (timer_count w) 0 n"
    by (simp add: w0)
  from R have acc: "map_of (accounts r) accId = Some (length (heap w))"
    by (simp add: w0)
  from conn have disc: "\<not> isConnected (account r (length (heap w)))"
    and att: "reconnectAttempts (account r (length (heap w))) = n"
    and inb: "length (heap w) < length (heap r)"
    by (simp_all add: connecting_def)
  have c1: "trace r = trace w @ Connect (length (conns w)) #
             concat (map (\<lambda>k. [SetTimer (timer_count w + (k - 1)) ReconnectT (length (heap w))
                                  (INITIAL_RECONNECT_DELAY * 2 ^ (k - 1)),
                                Connect (length (conns w) + k)]) [1..<Suc n])"
    unfolding tr backoff_trace_from_1 ..
  have c2: "getAccountStatus accId r = Some (False, n)"
    using acc disc att by (simp add: getAccountStatus_def)
  have c3: "getAccountStatus accId (step (ReadyEv (length (conns w) + n)) r) = Some (True, 0)"
    using ready_step [OF conn] acc inb
    by (simp add: getAccountStatus_def account_def)
  show ?thesis
    unfolding r_eq using c1 c2 c3 by blast
qed

theorem backoff_delays_witness:
  "trace (after_failures 3 ''acct-1'' cfg0 init) =
     [Connect 0, SetTimer 0 ReconnectT 0 1000, Connect 1, SetTimer 1 ReconnectT 0 2000,
      Connect 2, SetTimer 2 ReconnectT 0 4000, Connect 3]
   \<and> getAccountStatus ''acct-1'' (after_failures 3 ''acct-1'' cfg0 init) = Some (False, 3)
   \<and> getAccountStatus ''acct-1'' (step (ReadyEv 3) (after_failures 3 ''acct-1'' cfg0 init))
       = Some (True, 0)"
proof -
  have n: "(3::nat) < 5" by simp
  have fresh: "timers_fresh init" by (simp add: timers_fresh_def init_def)
  have eqs: "length (conns init) = 0" "timer_count init = 0" "length (heap init) = 0"
      "trace init = []"
    by (simp_all add: init_def)
  have upt: "[1..<Suc 3] = [1, 2, 3]" by (simp add: upt_rec)
  show ?thesis
    using backoff_delays [OF n fresh, of "''acct-1''" cfg0]
    unfolding eqs upt by (simp add: INITIAL_RECONNECT_DELAY_def)
qed

section \<open>After the last reconnect attempt\<close>

lemma isConnected_False_id: "\<not> isConnected x \<Longrightarrow> x\<lparr>isConnected := False\<rparr> = x"
  by (cases x) simp

text \<open>An error event for an account that has used up its attempts: two log lines.\<close>

lemma exhausted_error:
  assumes "exhausted w a" and "c' < length (conns w) \<longrightarrow> owner (conns w ! c') = a"
  shows "step (ErrorEv c') w =
     (if c' < length (conns w) \<and> errorOnce (conns w ! c')
      then w\<lparr>conns := (conns w)[c' := (conns w ! c')\<lparr>errorOnce := False\<rparr>],
             logged := logged w @ [LogImapError (account_id (heap w ! a)),
                                   LogMaxReconnect (account_id (heap w ! a))]\<rparr>
      else w)"
  using assms
  by (simp add: exhausted_def onError_def handleReconnect_def store_defs
        isConnected_False_id)

lemma exhausted_errors:
  "exhausted w a \<Longrightarrow> (\<forall>c' \<in> set cs. c' < length (conns w) \<longrightarrow> owner (conns w ! c') = a) \<Longrightarrow>
   heap (run (map ErrorEv cs) w) = heap w
   \<and> timers (run (map ErrorEv cs) w) = timers w
   \<and> timer_count (run (map ErrorEv cs) w) = timer_count w
   \<and> trace (run (map ErrorEv cs) w) = trace w
   \<and> accounts (run (map ErrorEv cs) w) = accounts w
   \<and> pending (run (map ErrorEv cs) w) = pending w
   \<and> exhausted (run (map ErrorEv cs) w) a"
proof (induction cs arbitrary: w)
  case Nil
  then show ?case by (simp add: run_def)
next
  case (Cons c' cs)
  define w' where "w' = step (ErrorEv c') w"
  from Cons.prems have own: "c' < length (conns w) \<longrightarrow> owner (conns w ! c') = a"
    by simp
  note st = exhausted_error [OF Cons.prems(1) own, folded w'_def]
  have same: "heap w' = heap w" "timers w' = timers w" "timer_count w' = timer_count w"
      "trace w' = trace w" "accounts w' = accounts w" "pending w' = pending w"
      "length (conns w') = length (conns w)"
    by (simp_all add: st)
  have ex': "exhausted w' a"
    using Cons.prems(1) by (simp add: exhausted_def account_def same)
  have owners': "\<forall>c'' \<in> set cs. c'' < length (conns w') \<longrightarrow> owner (conns w' ! c'') = a"
    using Cons.prems(2) by (simp add: st nth_list_update)
  have run_eq: "run (map ErrorEv (c' # cs)) w = run (map ErrorEv cs) w'"
    by (simp add: run_def w'_def)
  show ?case
    unfolding run_eq using Cons.IH [OF ex' owners'] by (simp add: same)
qed

text \<open>
  C4, as the code has it. A session is started and its connection and the five
  reconnect attempts all fail. Then it has used up its attempts and is not connected;
  the trace holds the first connect and exactly five reconnects and no timer of the
  session is pending, so no sixth attempt follows; the last error wrote "Max reconnect
  attempts reached" to the log. The code has no Failed value: the status query reports
  not connected with reconnectAttempts 5, and it reports the same while the fifth attempt
  is still under way. In that state the error listener and the failing watchdog probe
  only write to the log. And for every account that has used up its attempts, in any
  state of the manager, error events on its connections (\<open>cs\<close>), whether their listener
  is still registered or not, leave the store, the timers, the trace and the requests as
  they are.
\<close>

theorem exhausted_is_final:
  fixes w final :: world and accId :: string and cfg :: ImapConfig
  assumes "timers_fresh w"
  defines "final \<equiv> step (ErrorEv (length (conns w) + 5)) (after_failures 5 accId cfg w)"
  shows "exhausted final (length (heap w))
       \<and> trace final =
           trace w @ Connect (length (conns w)) #
             concat (map (\<lambda>k. [SetTimer (timer_count w + (k - 1)) ReconnectT (length (heap w))
                                  (INITIAL_RECONNECT_DELAY * 2 ^ (k - 1)),
                                Connect (length (conns w) + k)]) [1..<6])
       \<and> timers final = timers w
       \<and> logged final =
           logged w @ replicate 6 (LogImapError accId) @ [LogMaxReconnect accId]
       \<and> getAccountStatus accId final = Some (False, 5)
       \<and> getAccountStatus accId (after_failures 5 accId cfg w) = Some (False, 5)
       \<and> onError (length (heap w)) final =
           final\<lparr>logged := logged final @ [LogImapError accId, LogMaxReconnect accId]\<rparr>
       \<and> onNoop (length (heap w)) True final =
           final\<lparr>logged := logged final @ [LogWatchdogFailed accId, LogMaxReconnect accId]\<rparr>
       \<and> (\<forall>v b cs.
             exhausted v b \<and> (\<forall>c' \<in> set cs. c' < length (conns v) \<longrightarrow> owner (conns v ! c') = b)
             \<longrightarrow> heap (run (map ErrorEv cs) v) = heap v
               \<and> timers (run (map ErrorEv cs) v) = timers v
               \<and> trace (run (map ErrorEv cs) v) = trace v
               \<and> pending (run (map ErrorEv cs) v) = pending v
               \<and> accounts (run (map ErrorEv cs) v) = accounts v
               \<and> exhausted (run (map ErrorEv cs) v) b)"
proof -
  define a where "a = length (heap w)"
  define c where "c = length (conns w)"
  define w0 where "w0 = startImap accId cfg w"
  define r where "r = run (error_rounds c (timer_count w) 5) w0"
  have r: "after_failures 5 accId cfg w = r"
    by (simp only: after_failures_def r_def w0_def c_def)
  have final: "final = step (ErrorEv (c + 5)) r"
    by (simp only: final_def r c_def)
  have start: "connecting w0 a c 0"
    unfolding w0_def a_def c_def by (rule startImap_connecting [OF assms(1)])
  have w0: "timer_count w0 = timer_count w" "trace w0 = trace w @ [Connect c]"
      "map_of (accounts w0) accId = Some a" "timers w0 = timers w" "logged w0 = logged w"
      "account_id (heap w0 ! a) = accId"
    by (simp_all add: w0_def a_def c_def startImap_world update_conv' new_account_def)
  have "0 + 5 \<le> MAX_RECONNECT_ATTEMPTS" by (simp add: MAX_RECONNECT_ATTEMPTS_def)
  note R = error_rounds_run [OF start this, unfolded w0(1), folded r_def]
  from R have conn: "connecting r a (c + 5) 5" by simp
  from R have tr: "trace r = trace w @ Connect c # backoff_trace a c (timer_count w) 0 5"
    by (simp add: w0)
  from R have acc: "map_of (accounts r) accId = Some a" by (simp add: w0)
  from R have tm: "timers r = timers w" by (simp add: w0)
  from R have idr: "account_id (heap r ! a) = accId" by (simp add: w0)
  from R have lg: "logged r = logged w @ replicate 5 (LogImapError accId)" by (simp add: w0)
  from conn have ex: "exhausted r a"
    by (simp add: connecting_def exhausted_def MAX_RECONNECT_ATTEMPTS_def)
  from conn have own5: "c + 5 < length (conns r) \<longrightarrow> owner (conns r ! (c + 5)) = a"
    by (simp add: connecting_def)
  from conn have armed: "c + 5 < length (conns r) \<and> errorOnce (conns r ! (c + 5))"
    by (simp add: connecting_def)
  note stF = exhausted_error [OF ex own5, folded final]
  have same: "heap final = heap r" "timers final = timers r" "trace final = trace r"
      "accounts final = accounts r"
    by (simp_all add: stF)
  have lgF: "logged final = logged r @ [LogImapError accId, LogMaxReconnect accId]"
    using armed by (simp add: stF idr)
  have c1: "exhausted final a"
    using ex by (simp add: exhausted_def account_def same)
  from conn have stat: "\<not> isConnected (heap r ! a)" "reconnectAttempts (heap r ! a) = 5"
    by (simp_all add: connecting_def account_def)
  have six: "[1..<6] = [1..<Suc 5]" by simp
  have c2: "trace final = trace w @ Connect c #
             concat (map (\<lambda>k. [SetTimer (timer_count w + (k - 1)) ReconnectT a
                                  (INITIAL_RECONNECT_DELAY * 2 ^ (k - 1)),
                                Connect (c + k)]) [1..<6])"
    unfolding same tr six backoff_trace_from_1 ..
  have c3: "timers final = timers w" by (simp add: same tm)
  have rep6: "replicate 6 x = replicate 5 x @ [x]" for x :: log_line
    by (simp add: numeral_eq_Suc replicate_append_same)
  have c4: "logged final = logged w @ replicate 6 (LogImapError accId) @ [LogMaxReconnect accId]"
    by (simp add: lgF lg rep6)
  have c5: "getAccountStatus accId final = Some (False, 5)"
    using acc stat by (simp add: getAccountStatus_def account_def same)
  have c6: "getAccountStatus accId r = Some (False, 5)"
    using acc stat by (simp add: getAccountStatus_def account_def)
  have idF: "account_id (heap final ! a) = accId" by (simp add: same idr)
  have c7: "onError a final =
      final\<lparr>logged := logged final @ [LogImapError accId, LogMaxReconnect accId]\<rparr>"
    using c1 idF by (simp add: onError_def handleReconnect_def store_defs exhausted_def
          isConnected_False_id)
  have c8: "onNoop a True final =
      final\<lparr>logged := logged final @ [LogWatchdogFailed accId, LogMaxReconnect accId]\<rparr>"
    using c1 idF by (simp add: onNoop_def handleReconnect_def store_defs exhausted_def
          isConnected_False_id)
  have c9: "\<forall>v b cs.
      exhausted v b \<and> (\<forall>c' \<in> set cs. c' < length (conns v) \<longrightarrow> owner (conns v ! c') = b)
      \<longrightarrow> heap (run (map ErrorEv cs) v) = heap v
        \<and> timers (run (map ErrorEv cs) v) = timers v
        \<and> trace (run (map ErrorEv cs) v) = trace v
        \<and> pending (run (map ErrorEv cs) v) = pending v
        \<and> accounts (run (map ErrorEv cs) v) = accounts v
        \<and> exhausted (run (map ErrorEv cs) v) b"
  proof (intro allI impI)
    fix v b cs
    assume h: "exhausted v b \<and>
      (\<forall>c' \<in> set cs. c' < length (conns v) \<longrightarrow> owner (conns v ! c') = b)"
    then have e: "exhausted v b"
      and o: "\<forall>c' \<in> set cs. c' < length (conns v) \<longrightarrow> owner (conns v ! c') = b"
      by blast+
    from exhausted_errors [OF e o]
    show "heap (run (map ErrorEv cs) v) = heap v
        \<and> timers (run (map ErrorEv cs) v) = timers v
        \<and> trace (run (map ErrorEv cs) v) = trace v
        \<and> pending (run (map ErrorEv cs) v) = pending v
        \<and> accounts (run (map ErrorEv cs) v) = accounts v
        \<and> exhausted (run (map ErrorEv cs) v) b"
      by blast
  qed
  show ?thesis
    unfolding a_def [symmetric] c_def [symmetric] r
    using c1 c2 c3 c4 c5 c6 c7 c8 c9 by blast
qed

lemma worn_out_world:
  "worn_out = \<lparr> accounts = [(''acct-1'', 0)],
      heap = [(new_account ''acct-1'' cfg0)\<lparr>connection := Some 5, reconnectAttempts := 5\<rparr>],
      conns = [\<lparr>owner = 0, readyOnce = False, errorOnce = True, endOnce = True, mailOn = True\<rparr>,
               \<lparr>owner = 0, readyOnce = True, errorOnce = False, endOnce = True, mailOn = True\<rparr>,
               \<lparr>owner = 0, readyOnce = True, errorOnce = False, endOnce = True, mailOn = True\<rparr>,
               \<lparr>owner = 0, readyOnce = True, errorOnce = False, endOnce = True, mailOn = True\<rparr>,
               \<lparr>owner = 0, readyOnce = True, errorOnce = False, endOnce = True, mailOn = True\<rparr>,
               \<lparr>owner = 0, readyOnce = True, errorOnce = False, endOnce = True, mailOn = True\<rparr>],
      timers = [], timer_count = 6, pending = [], jobs = [],
      trace = [Connect 0, SetTimer 0 WatchdogT 0 WATCHDOG_INTERVAL, OpenBox 0, Idle 0, Noop 0,
               ClearTimer 0, SetTimer 1 ReconnectT 0 1000, Connect 1,
               SetTimer 2 ReconnectT 0 2000, Connect 2, SetTimer 3 ReconnectT 0 4000,
               Connect 3, SetTimer 4 ReconnectT 0 8000, Connect 4,
               SetTimer 5 ReconnectT 0 16000, Connect 5],
      logged = [LogWatchdogFailed ''acct-1'', LogImapError ''acct-1'', LogImapError ''acct-1'',
                LogImapError ''acct-1'', LogImapError ''acct-1'', LogImapError ''acct-1'',
                LogMaxReconnect ''acct-1''],
      sink = [], classified = [] \<rparr>"
  by (simp add: worn_out_def run_def startImap_world init_def new_account_def onReady_def
        startWatchdog_def startIdleMonitoring_def onOpenBox_def watchdog_fired_def
        onNoop_def onError_def handleReconnect_def cleanupTimers_def connectAccount_def
        setupEventHandlers_def store_defs Let_def INITIAL_RECONNECT_DELAY_def
        MAX_RECONNECT_ATTEMPTS_def)

theorem exhausted_is_final_witness:
  "exhausted (step (ErrorEv 5) (after_failures 5 ''acct-1'' cfg0 init)) 0
   \<and> trace (step (ErrorEv 5) (after_failures 5 ''acct-1'' cfg0 init)) =
       [Connect 0, SetTimer 0 ReconnectT 0 1000, Connect 1, SetTimer 1 ReconnectT 0 2000,
        Connect 2, SetTimer 2 ReconnectT 0 4000, Connect 3, SetTimer 3 ReconnectT 0 8000,
        Connect 4, SetTimer 4 ReconnectT 0 16000, Connect 5]
   \<and> timers (step (ErrorEv 5) (after_failures 5 ''acct-1'' cfg0 init)) = []
   \<and> logged (step (ErrorEv 5) (after_failures 5 ''acct-1'' cfg0 init)) =
       [LogImapError ''acct-1'', LogImapError ''acct-1'', LogImapError ''acct-1'',
        LogImapError ''acct-1'', LogImapError ''acct-1'', LogImapError ''acct-1'',
        LogMaxReconnect ''acct-1'']
   \<and> getAccountStatus ''acct-1'' (step (ErrorEv 5) (after_failures 5 ''acct-1'' cfg0 init))
       = Some (False, 5)
   \<and> getAccountStatus ''acct-1'' (after_failures 5 ''acct-1'' cfg0 init) = Some (False, 5)
   \<and> errorOnce (conns worn_out ! 0)
   \<and> heap (run (map ErrorEv [0, 5, 0]) worn_out) = heap worn_out
   \<and> timers (run (map ErrorEv [0, 5, 0]) worn_out) = []
   \<and> trace (run (map ErrorEv [0, 5, 0]) worn_out) = trace worn_out
   \<and> exhausted (run (map ErrorEv [0, 5, 0]) worn_out) 0"
proof -
  have fresh: "timers_fresh init" by (simp add: timers_fresh_def init_def)
  have eqs: "length (conns init) = 0" "timer_count init = 0" "length (heap init) = 0"
      "trace init = []" "timers init = []" "logged init = []" "0 + 5 = (5::nat)"
    by (simp_all add: init_def)
  have upt: "[1..<6] = [1, 2, 3, 4, 5]" by (simp add: upt_rec)
  have rep6: "replicate 6 x = [x, x, x, x, x, x]" for x :: log_line
    by (simp add: numeral_eq_Suc)
  note T = exhausted_is_final [OF fresh, of "''acct-1''" cfg0, unfolded eqs upt rep6]
  have ex: "exhausted worn_out 0"
    by (simp add: worn_out_world exhausted_def account_def new_account_def
          MAX_RECONNECT_ATTEMPTS_def)
  have own: "\<forall>c' \<in> set [0, 5, 0]. c' < length (conns worn_out) \<longrightarrow> owner (conns worn_out ! c') = 0"
    by (simp add: worn_out_world)
  from T have B: "\<forall>v b cs.
      exhausted v b \<and> (\<forall>c' \<in> set cs. c' < length (conns v) \<longrightarrow> owner (conns v ! c') = b)
      \<longrightarrow> heap (run (map ErrorEv cs) v) = heap v
        \<and> timers (run (map ErrorEv cs) v) = timers v
        \<and> trace (run (map ErrorEv cs) v) = trace v
        \<and> pending (run (map ErrorEv cs) v) = pending v
        \<and> accounts (run (map ErrorEv cs) v) = accounts v
        \<and> exhausted (run (map ErrorEv cs) v) b"
    by blast
  from B ex own have W: "heap (run (map ErrorEv [0, 5, 0]) worn_out) = heap worn_out
      \<and> timers (run (map ErrorEv [0, 5, 0]) worn_out) = timers worn_out
      \<and> trace (run (map ErrorEv [0, 5, 0]) worn_out) = trace worn_out
      \<and> exhausted (run (map ErrorEv [0, 5, 0]) worn_out) 0"
    by blast
  have armed: "errorOnce (conns worn_out ! 0)" "timers worn_out = []"
    by (simp_all add: worn_out_world)
  from T have A: "exhausted (step (ErrorEv 5) (after_failures 5 ''acct-1'' cfg0 init)) 0"
    "trace (step (ErrorEv 5) (after_failures 5 ''acct-1'' cfg0 init)) =
       [Connect 0, SetTimer 0 ReconnectT 0 1000, Connect 1, SetTimer 1 ReconnectT 0 2000,
        Connect 2, SetTimer 2 ReconnectT 0 4000, Connect 3, SetTimer 3 ReconnectT 0 8000,
        Connect 4, SetTimer 4 ReconnectT 0 16000, Connect 5]"
    "timers (step (ErrorEv 5) (after_failures 5 ''acct-1'' cfg0 init)) = []"
    "logged (step (ErrorEv 5) (after_failures 5 ''acct-1'' cfg0 init)) =
       [LogImapError ''acct-1'', LogImapError ''acct-1'', LogImapError ''acct-1'',
        LogImapError ''acct-1'', LogImapError ''acct-1'', LogImapError ''acct-1'',
        LogMaxReconnect ''acct-1'']"
    "getAccountStatus ''acct-1'' (step (ErrorEv 5) (after_failures 5 ''acct-1'' cfg0 init))
       = Some (False, 5)"
    "getAccountStatus ''acct-1'' (after_failures 5 ''acct-1'' cfg0 init) = Some (False, 5)"
    by (simp_all add: INITIAL_RECONNECT_DELAY_def)
  from A W armed show ?thesis by simp
qed

text \<open>
  C4 as stated fails: the status query does not show a terminal state. After five
  failures and with the fifth reconnect under way it reports (false, 5); when that
  attempt has failed too it reports the same (false, 5); and from the first of the two
  states the session still becomes connected when the connection gets ready.
\<close>

theorem status_hides_failure_counterexample:
  "getAccountStatus ''acct-1'' (after_failures 5 ''acct-1'' cfg0 init) = Some (False, 5)
   \<and> getAccountStatus ''acct-1'' (step (ErrorEv 5) (after_failures 5 ''acct-1'' cfg0 init))
       = Some (False, 5)
   \<and> getAccountStatus ''acct-1'' (step (ReadyEv 5) (after_failures 5 ''acct-1'' cfg0 init))
       = Some (True, 0)"
proof -
  define w0 where "w0 = startImap ''acct-1'' cfg0 init"
  define r where "r = run (error_rounds 0 0 5) w0"
  have r: "after_failures 5 ''acct-1'' cfg0 init = r"
    by (simp add: after_failures_def r_def w0_def init_def)
  have fresh: "timers_fresh init" by (simp add: timers_fresh_def init_def)
  have start: "connecting w0 0 0 0"
    using startImap_connecting [OF fresh, of "''acct-1''" cfg0]
    by (simp add: w0_def init_def)
  have w0: "timer_count w0 = 0" "map_of (accounts w0) ''acct-1'' = Some 0"
    by (simp_all add: w0_def startImap_world init_def)
  have "0 + 5 \<le> MAX_RECONNECT_ATTEMPTS" by (simp add: MAX_RECONNECT_ATTEMPTS_def)
  note R = error_rounds_run [OF start this, unfolded w0(1), folded r_def]
  from R have conn: "connecting r 0 5 5" by simp
  from R have acc: "map_of (accounts r) ''acct-1'' = Some 0" by (simp add: w0)
  from conn have stat: "\<not> isConnected (heap r ! 0)" "reconnectAttempts (heap r ! 0) = 5"
      "0 < length (heap r)"
    by (simp_all add: connecting_def account_def)
  from conn have ex: "exhausted r 0"
    by (simp add: connecting_def exhausted_def MAX_RECONNECT_ATTEMPTS_def)
  from conn have own5: "5 < length (conns r) \<longrightarrow> owner (conns r ! 5) = 0"
    by (simp add: connecting_def)
  have c1: "getAccountStatus ''acct-1'' r = Some (False, 5)"
    using acc stat by (simp add: getAccountStatus_def account_def)
  have c2: "getAccountStatus ''acct-1'' (step (ErrorEv 5) r) = Some (False, 5)"
    unfolding exhausted_error [OF ex own5]
    using acc stat by (simp add: getAccountStatus_def account_def)
  have c3: "getAccountStatus ''acct-1'' (step (ReadyEv 5) r) = Some (True, 0)"
    using ready_step [OF conn] acc stat by (simp add: getAccountStatus_def account_def)
  show ?thesis
    unfolding r using c1 c2 c3 by blast
qed

section \<open>Fetch cycles\<close>










lemma listening_world:
  "listening = \<lparr> accounts = [(''acct-1'', 0)],
      heap = [(new_account ''acct-1'' cfg0)\<lparr>connection := Some 0, isConnected := True,
                watchdogTimer := Some 0\<rparr>],
      conns = [\<lparr>owner = 0, readyOnce = False, errorOnce = True, endOnce = True,
                 mailOn = True\<rparr>],
      timers = [\<lparr>tid = 0, kind = WatchdogT, timer_owner = 0, delay = WATCHDOG_INTERVAL\<rparr>],
      timer_count = 1, pending = [], jobs = [],
      trace = [Connect 0, SetTimer 0 WatchdogT 0 WATCHDOG_INTERVAL, OpenBox 0, Idle 0],
      logged = [], sink = [], classified = [] \<rparr>"
  by (simp add: listening_def run_def startImap_world init_def new_account_def onReady_def
        startWatchdog_def startIdleMonitoring_def onOpenBox_def store_defs
        INITIAL_RECONNECT_DELAY_def)



section \<open>A fetch cycle: search results, the batch, the return to idle\<close>

lemma mset_concat_remove1:
  "j \<in> set js \<Longrightarrow> mset (concat (map f js)) = mset (f j) + mset (concat (map f (remove1 j js)))"
  by (induction js) auto

lemma arrived_Cons: "arrived (e # es) = arrived [e] @ arrived es"
  by (cases e) simp_all

lemma arrived_append: "arrived (xs @ ys) = arrived xs @ arrived ys"
proof (induction xs)
  case Nil
  show ?case by simp
next
  case (Cons e xs)
  have "arrived ((e # xs) @ ys) = arrived [e] @ arrived (xs @ ys)"
    using arrived_Cons [of e "xs @ ys"] by simp
  also have "\<dots> = arrived [e] @ arrived xs @ arrived ys" by (simp only: Cons.IH)
  also have "\<dots> = arrived (e # xs) @ arrived ys"
    using arrived_Cons [of e xs] by simp
  finally show ?case .
qed

text \<open>
  One event of a batch. What the sink holds together with what the waiting jobs will
  still add grows by the record of the message that arrives, if it will be stored; the
  same for the log. Nothing else of the state changes.
\<close>

lemma job_done_step:
  "heap (step (JobDone j) w) = heap w \<and> accounts (step (JobDone j) w) = accounts w
   \<and> pending (step (JobDone j) w) = pending w \<and> timers (step (JobDone j) w) = timers w
   \<and> timer_count (step (JobDone j) w) = timer_count w \<and> trace (step (JobDone j) w) = trace w
   \<and> mset (sink (step (JobDone j) w)) +
       mset (concat (map (job_yield (heap w)) (jobs (step (JobDone j) w)))) =
     mset (sink w) + mset (concat (map (job_yield (heap w)) (jobs w)))
   \<and> mset (logged (step (JobDone j) w)) +
       mset (concat (map (job_log (heap w)) (jobs (step (JobDone j) w)))) =
     mset (logged w) + mset (concat (map (job_log (heap w)) (jobs w)))"
proof (cases "j \<in> set (jobs w)")
  case False
  then show ?thesis by simp
next
  case True
  note y = mset_concat_remove1 [OF True, of "job_yield (heap w)"]
  note l = mset_concat_remove1 [OF True, of "job_log (heap w)"]
  show ?thesis
  proof (cases j)
    case (Parse a m)
    with True y l show ?thesis
      by (cases "parsed m")
         (simp_all add: processEmail_parsed_def store_defs stored_def doc_of_def
            message_log_def)
  next
    case (Index a m d)
    with True y l show ?thesis
      by (simp add: processEmail_indexed_def store_defs)
  next
    case (Classify a m d)
    with True y l show ?thesis
      by (simp add: processEmail_classified_def store_defs)
  qed
qed

lemma fetch_message_step:
  "step (FetchMessage a m) w = w\<lparr>jobs := jobs w @ [Parse a m]\<rparr>"
  by (simp add: processEmail_def)

lemma batch_step:
  assumes "batch_event a e"
  shows "heap (step e w) = heap w \<and> accounts (step e w) = accounts w
   \<and> pending (step e w) = pending w \<and> timers (step e w) = timers w
   \<and> timer_count (step e w) = timer_count w \<and> trace (step e w) = trace w
   \<and> mset (sink (step e w)) + mset (concat (map (job_yield (heap w)) (jobs (step e w)))) =
     mset (sink w) + mset (concat (map (job_yield (heap w)) (jobs w))) +
     mset (map (doc_of (account_id (heap w ! a))) (filter stored (arrived [e])))
   \<and> mset (logged (step e w)) + mset (concat (map (job_log (heap w)) (jobs (step e w)))) =
     mset (logged w) + mset (concat (map (job_log (heap w)) (jobs w))) +
     mset (concat (map (message_log (account_id (heap w ! a))) (arrived [e])))"
proof (cases e)
  case (FetchMessage b m)
  with assms have ba: "b = a" by simp
  show ?thesis
    unfolding FetchMessage ba fetch_message_step by simp
next
  case (JobDone j)
  show ?thesis
    unfolding JobDone using job_done_step [of j w] by simp
qed (use assms in simp_all)

text \<open>Any number of them, in any order.\<close>

lemma batch_run:
  "list_all (batch_event a) evs \<Longrightarrow>
   heap (run evs w) = heap w \<and> accounts (run evs w) = accounts w
   \<and> pending (run evs w) = pending w \<and> timers (run evs w) = timers w
   \<and> timer_count (run evs w) = timer_count w \<and> trace (run evs w) = trace w
   \<and> mset (sink (run evs w)) + mset (concat (map (job_yield (heap w)) (jobs (run evs w)))) =
     mset (sink w) + mset (concat (map (job_yield (heap w)) (jobs w))) +
     mset (map (doc_of (account_id (heap w ! a))) (filter stored (arrived evs)))
   \<and> mset (logged (run evs w)) + mset (concat (map (job_log (heap w)) (jobs (run evs w)))) =
     mset (logged w) + mset (concat (map (job_log (heap w)) (jobs w))) +
     mset (concat (map (message_log (account_id (heap w ! a))) (arrived evs)))"
proof (induction evs arbitrary: w)
  case Nil
  show ?case by (simp add: run_Nil)
next
  case (Cons e evs)
  define w' where "w' = step e w"
  from Cons.prems have be: "batch_event a e" and rest: "list_all (batch_event a) evs"
    by simp_all
  have split: "arrived (e # evs) = arrived [e] @ arrived evs" by (rule arrived_Cons)
  note st = batch_step [OF be, where w = w, folded w'_def]
  from st have same: "heap w' = heap w" by simp
  note IH = Cons.IH [OF rest, where w = w', unfolded same]
  have run_eq: "run (e # evs) w = run evs w'" by (simp only: run_Cons w'_def)
  have fields: "heap (run evs w') = heap w" "accounts (run evs w') = accounts w"
      "pending (run evs w') = pending w" "timers (run evs w') = timers w"
      "timer_count (run evs w') = timer_count w" "trace (run evs w') = trace w"
    using IH st by simp_all
  have sinks: "mset (sink (run evs w')) +
        mset (concat (map (job_yield (heap w)) (jobs (run evs w')))) =
      mset (sink w) + mset (concat (map (job_yield (heap w)) (jobs w))) +
      mset (map (doc_of (account_id (heap w ! a))) (filter stored (arrived (e # evs))))"
  proof -
    from IH have "mset (sink (run evs w')) +
        mset (concat (map (job_yield (heap w)) (jobs (run evs w')))) =
      mset (sink w') + mset (concat (map (job_yield (heap w)) (jobs w'))) +
      mset (map (doc_of (account_id (heap w ! a))) (filter stored (arrived evs)))"
      by blast
    also from st have "mset (sink w') + mset (concat (map (job_yield (heap w)) (jobs w'))) =
      mset (sink w) + mset (concat (map (job_yield (heap w)) (jobs w))) +
      mset (map (doc_of (account_id (heap w ! a))) (filter stored (arrived [e])))"
      by blast
    finally show ?thesis unfolding split by (simp add: ac_simps)
  qed
  have logs: "mset (logged (run evs w')) +
        mset (concat (map (job_log (heap w)) (jobs (run evs w')))) =
      mset (logged w) + mset (concat (map (job_log (heap w)) (jobs w))) +
      mset (concat (map (message_log (account_id (heap w ! a))) (arrived (e # evs))))"
  proof -
    from IH have "mset (logged (run evs w')) +
        mset (concat (map (job_log (heap w)) (jobs (run evs w')))) =
      mset (logged w') + mset (concat (map (job_log (heap w)) (jobs w'))) +
      mset (concat (map (message_log (account_id (heap w ! a))) (arrived evs)))"
      by blast
    also from st have "mset (logged w') + mset (concat (map (job_log (heap w)) (jobs w'))) =
      mset (logged w) + mset (concat (map (job_log (heap w)) (jobs w))) +
      mset (concat (map (message_log (account_id (heap w ! a))) (arrived [e])))"
      by blast
    finally show ?thesis unfolding split by (simp add: ac_simps)
  qed
  show ?case
    unfolding run_eq using fields sinks logs by blast
qed

text \<open>
  C6. A fetch is open; the bodies of its batch arrive and the promises of processEmail
  settle in any order, some before the end of the fetch (\<open>evs1\<close>) and the others after it
  (\<open>evs2\<close>). When all have settled, the sink has got exactly the records of the messages
  that parse and that indexEmail accepts, each once, whatever happened to the other
  messages of the batch; the log has got one line for each message that failed; the
  account objects and the map are untouched; and the end of the fetch has scheduled the
  return to idle of the connected session: when that timer fires, idle is called.
\<close>

theorem batch_failures_are_skipped:
  assumes "owed RFetch a w" and "isConnected (account w a)"
    and "connection (account w a) = Some c" and "timers_fresh w"
    and "jobs w = []"
    and "list_all (batch_event a) evs1" and "list_all (batch_event a) evs2"
    and "jobs (run (evs1 @ FetchEnd a # evs2) w) = []"
  shows "mset (sink (run (evs1 @ FetchEnd a # evs2) w)) =
           mset (sink w) +
           mset (map (doc_of (account_id (account w a)))
                  (filter stored (arrived (evs1 @ evs2))))
       \<and> mset (logged (run (evs1 @ FetchEnd a # evs2) w)) =
           mset (logged w) +
           mset (concat (map (message_log (account_id (account w a)))
                          (arrived (evs1 @ evs2))))
       \<and> heap (run (evs1 @ FetchEnd a # evs2) w) = heap w
       \<and> accounts (run (evs1 @ FetchEnd a # evs2) w) = accounts w
       \<and> trace (run (evs1 @ FetchEnd a # evs2) w) =
           trace w @ [SetTimer (timer_count w) RestartIdleT a 1000]
       \<and> trace (step (TimerFire (timer_count w)) (run (evs1 @ FetchEnd a # evs2) w)) =
           trace w @ [SetTimer (timer_count w) RestartIdleT a 1000, Idle c]"
proof -
  define r1 where "r1 = run evs1 w"
  define e where "e = step (FetchEnd a) r1"
  define r where "r = run evs2 e"
  have run_eq: "run (evs1 @ FetchEnd a # evs2) w = r"
    by (simp only: run_append run_Cons r_def e_def r1_def)
  note B1 = batch_run [OF assms(6), of w, folded r1_def]
  from B1 have r1: "heap r1 = heap w" "accounts r1 = accounts w" "pending r1 = pending w"
      "timers r1 = timers w" "timer_count r1 = timer_count w" "trace r1 = trace w"
    by simp_all
  from assms(4) have fresh: "list_all (\<lambda>p. tid p < timer_count w) (timers w)"
    by (simp add: timers_fresh_def)
  have e: "e = r1\<lparr>pending := remove1 (RFetch, a) (pending w),
                  timers := timers w @ [\<lparr>tid = timer_count w, kind = RestartIdleT,
                                          timer_owner = a, delay = 1000\<rparr>],
                  timer_count := Suc (timer_count w),
                  trace := trace w @ [SetTimer (timer_count w) RestartIdleT a 1000]\<rparr>"
    using assms(1-3)
    by (simp add: e_def onFetchEnd_def restartIdle_def store_defs r1)
  note B2 = batch_run [OF assms(7), of e, folded r_def]
  have he: "heap e = heap w" "jobs e = jobs r1" "sink e = sink r1" "logged e = logged r1"
      "accounts e = accounts w"
    by (simp_all add: e r1)
  from assms(8) have settled: "jobs r = []" by (simp only: run_eq)
  from B2 have f: "heap r = heap w" "accounts r = accounts w"
      "timers r = timers w @ [\<lparr>tid = timer_count w, kind = RestartIdleT,
                                 timer_owner = a, delay = 1000\<rparr>]"
      "trace r = trace w @ [SetTimer (timer_count w) RestartIdleT a 1000]"
    by (simp_all add: he e r1)
  from B2 have "mset (sink r) + mset (concat (map (job_yield (heap w)) (jobs r))) =
      mset (sink r1) + mset (concat (map (job_yield (heap w)) (jobs r1))) +
      mset (map (doc_of (account_id (heap w ! a))) (filter stored (arrived evs2)))"
    by (simp add: he r1)
  also from B1 have "mset (sink r1) + mset (concat (map (job_yield (heap w)) (jobs r1))) =
      mset (sink w) +
      mset (map (doc_of (account_id (heap w ! a))) (filter stored (arrived evs1)))"
    by (simp add: assms(5))
  finally have c1: "mset (sink r) = mset (sink w) +
      mset (map (doc_of (account_id (account w a))) (filter stored (arrived (evs1 @ evs2))))"
    by (simp add: settled account_def arrived_append)
  from B2 have "mset (logged r) + mset (concat (map (job_log (heap w)) (jobs r))) =
      mset (logged r1) + mset (concat (map (job_log (heap w)) (jobs r1))) +
      mset (concat (map (message_log (account_id (heap w ! a))) (arrived evs2)))"
    by (simp add: he r1)
  also from B1 have "mset (logged r1) + mset (concat (map (job_log (heap w)) (jobs r1))) =
      mset (logged w) +
      mset (concat (map (message_log (account_id (heap w ! a))) (arrived evs1)))"
    by (simp add: assms(5))
  finally have c2: "mset (logged r) = mset (logged w) +
      mset (concat (map (message_log (account_id (account w a))) (arrived (evs1 @ evs2))))"
    by (simp add: settled account_def arrived_append)
  have c3: "trace (step (TimerFire (timer_count w)) r) =
      trace w @ [SetTimer (timer_count w) RestartIdleT a 1000, Idle c]"
    using assms(2,3)
    by (simp add: f find_fresh_timer [OF fresh] restartIdle_fired_def store_defs)
  show ?thesis
    unfolding run_eq using c1 c2 f(1,2,4) c3 by blast
qed

lemma fetching_world:
  "step (SearchDone 0 False (Some [1..<11])) (step (MailEv 0) listening) =
     listening\<lparr>pending := [(RFetch, 0)],
       trace := trace listening @ [IdleStop 0, Search 0, Fetch 0 [1..<11]]\<rparr>"
  by (simp add: listening_world fetchNewEmails_def onSearch_def slice_last_def store_defs)

lemma batch10_list:
  "batch10 = [msg 1 True, msg 2 True, msg 3 True, msg 4 True, msg 5 False, msg 6 True,
              msg 7 True, msg 8 True, msg 9 True, msg 10 True]"
proof -
  have upt: "[1..<11] = [1, 2, 3, 4, 5, 6, 7, 8, 9, 10::nat]"
    by (simp add: upt_conv_Cons)
  show ?thesis
    unfolding batch10_def upt by simp
qed

lemma late_run:
  "jobs (run (map (FetchMessage 0) batch10 @ FetchEnd 0 # late_completions)
          (step (SearchDone 0 False (Some [1..<11])) (step (MailEv 0) listening))) = []
   \<and> sink (run (map (FetchMessage 0) batch10 @ FetchEnd 0 # late_completions)
          (step (SearchDone 0 False (Some [1..<11])) (step (MailEv 0) listening))) =
       map (\<lambda>i. emailDoc ''acct-1'' bare_mail i 0 0) [10, 9, 8, 7, 6, 4, 3, 2, 1]
   \<and> logged (run (map (FetchMessage 0) batch10 @ FetchEnd 0 # late_completions)
          (step (SearchDone 0 False (Some [1..<11])) (step (MailEv 0) listening))) =
       [LogProcessFailed ''acct-1'']"
  unfolding fetching_world
  by (simp add: listening_world batch10_list late_completions_def msg_def doc_of_def
        stored_def run_def processEmail_def processEmail_parsed_def processEmail_indexed_def
        processEmail_classified_def onFetchEnd_def restartIdle_def store_defs new_account_def)

theorem batch_failures_are_skipped_witness:
  "map uid (sink (run (map (FetchMessage 0) batch10 @ FetchEnd 0 # late_completions)
       (step (SearchDone 0 False (Some [1..<11])) (step (MailEv 0) listening))))
     = [10, 9, 8, 7, 6, 4, 3, 2, 1]
   \<and> mset (sink (run (map (FetchMessage 0) batch10 @ FetchEnd 0 # late_completions)
       (step (SearchDone 0 False (Some [1..<11])) (step (MailEv 0) listening))))
     = mset (map (doc_of ''acct-1'')
         [msg 1 True, msg 2 True, msg 3 True, msg 4 True, msg 6 True, msg 7 True, msg 8 True,
          msg 9 True, msg 10 True])
   \<and> mset (logged (run (map (FetchMessage 0) batch10 @ FetchEnd 0 # late_completions)
       (step (SearchDone 0 False (Some [1..<11])) (step (MailEv 0) listening))))
     = mset [LogProcessFailed ''acct-1'']
   \<and> trace (step (TimerFire 1)
       (run (map (FetchMessage 0) batch10 @ FetchEnd 0 # late_completions)
         (step (SearchDone 0 False (Some [1..<11])) (step (MailEv 0) listening))))
     = [Connect 0, SetTimer 0 WatchdogT 0 WATCHDOG_INTERVAL, OpenBox 0, Idle 0, IdleStop 0,
        Search 0, Fetch 0 [1, 2, 3, 4, 5, 6, 7, 8, 9, 10], SetTimer 1 RestartIdleT 0 1000,
        Idle 0]"
proof -
  define w where "w = step (SearchDone 0 False (Some [1..<11])) (step (MailEv 0) listening)"
  have w: "w = listening\<lparr>pending := [(RFetch, 0)],
       trace := trace listening @ [IdleStop 0, Search 0, Fetch 0 [1..<11]]\<rparr>"
    unfolding w_def by (rule fetching_world)
  have h: "owed RFetch 0 w" "isConnected (account w 0)" "connection (account w 0) = Some 0"
      "timers_fresh w" "jobs w = []"
    by (simp_all add: w listening_world owed_def account_def timers_fresh_def)
  have b1: "list_all (batch_event 0) (map (FetchMessage 0) batch10)"
    by (simp add: batch10_list)
  have b2: "list_all (batch_event 0) late_completions"
    by (simp add: late_completions_def batch10_list stored_def msg_def)
  note L = late_run [folded w_def]
  from L have fin: "jobs (run (map (FetchMessage 0) batch10 @ FetchEnd 0 # late_completions) w)
      = []"
    by (rule conjunct1)
  have arr: "arrived (map (FetchMessage 0) batch10 @ late_completions) = batch10"
    by (simp add: arrived_append late_completions_def batch10_list stored_def msg_def)
  have upt: "[1..<11] = [1, 2, 3, 4, 5, 6, 7, 8, 9, 10::nat]"
      "[Suc 0..<11] = [1, 2, 3, 4, 5, 6, 7, 8, 9, 10::nat]"
    by (simp_all add: upt_conv_Cons)
  have base: "timer_count w = 1" "sink w = []" "logged w = []"
      "account_id (account w 0) = ''acct-1''"
      "trace w = [Connect 0, SetTimer 0 WatchdogT 0 WATCHDOG_INTERVAL, OpenBox 0,
        Idle 0, IdleStop 0, Search 0, Fetch 0 [1, 2, 3, 4, 5, 6, 7, 8, 9, 10]]"
    by (simp_all add: w listening_world account_def new_account_def upt)
  have kept: "filter stored batch10 =
      [msg 1 True, msg 2 True, msg 3 True, msg 4 True, msg 6 True, msg 7 True, msg 8 True,
       msg 9 True, msg 10 True]"
    by (simp add: batch10_list stored_def msg_def)
  have lines: "concat (map (message_log ''acct-1'') batch10) = [LogProcessFailed ''acct-1'']"
    by (simp add: batch10_list message_log_def stored_def msg_def)
  note T = batch_failures_are_skipped [OF h b1 b2 fin, unfolded arr base kept lines]
  from L have uids: "map uid (sink (run (map (FetchMessage 0) batch10 @ FetchEnd 0 #
      late_completions) w)) = [10, 9, 8, 7, 6, 4, 3, 2, 1]"
    by (simp add: emailDoc_def)
  from T uids show ?thesis
    unfolding w_def [symmetric] by simp
qed

text \<open>
  C9. In the search callback of a fetch cycle, a result list that is not empty is cut to
  its last ten entries (all of it when it has at most ten) and exactly that list is
  fetched. On an empty result, and when no list is given, no fetch is sent and none is
  owed; a connected session schedules its return to idle, and when that timer fires,
  idle is called.
\<close>

theorem fetch_last_ten:
  assumes "owed RSearch a w" and "connection (account w a) = Some c"
    and "isConnected (account w a)" and "timers_fresh w"
  shows "(rs \<noteq> [] \<longrightarrow>
            trace (step (SearchDone a False (Some rs)) w) =
              trace w @ [Fetch c (slice_last 10 rs)]
            \<and> pending (step (SearchDone a False (Some rs)) w) =
              remove1 (RSearch, a) (pending w) @ [(RFetch, a)])
       \<and> slice_last 10 rs = drop (length rs - 10) rs
       \<and> length (slice_last 10 rs) = min 10 (length rs)
       \<and> suffix (slice_last 10 rs) rs
       \<and> trace (step (SearchDone a False (Some [])) w) =
           trace w @ [SetTimer (timer_count w) RestartIdleT a 1000]
       \<and> pending (step (SearchDone a False (Some [])) w) = remove1 (RSearch, a) (pending w)
       \<and> step (SearchDone a False None) w = step (SearchDone a False (Some [])) w
       \<and> trace (run [SearchDone a False (Some []), TimerFire (timer_count w)] w) =
           trace w @ [SetTimer (timer_count w) RestartIdleT a 1000, Idle c]"
proof -
  from assms(4) have fresh: "list_all (\<lambda>p. tid p < timer_count w) (timers w)"
    by (simp add: timers_fresh_def)
  have c1: "rs \<noteq> [] \<longrightarrow>
      trace (step (SearchDone a False (Some rs)) w) = trace w @ [Fetch c (slice_last 10 rs)]
      \<and> pending (step (SearchDone a False (Some rs)) w) =
          remove1 (RSearch, a) (pending w) @ [(RFetch, a)]"
    using assms(1,2) by (simp add: onSearch_def store_defs)
  have c2: "slice_last 10 rs = drop (length rs - 10) rs"
    by (simp add: slice_last_def)
  have c3: "length (slice_last 10 rs) = min 10 (length rs)"
    by (simp add: slice_last_def)
  have c4: "suffix (slice_last 10 rs) rs"
    by (simp add: slice_last_def suffix_drop)
  define e where "e = step (SearchDone a False (Some [])) w"
  have e: "e = w\<lparr>pending := remove1 (RSearch, a) (pending w),
                 timers := timers w @ [\<lparr>tid = timer_count w, kind = RestartIdleT,
                                         timer_owner = a, delay = 1000\<rparr>],
                 timer_count := Suc (timer_count w),
                 trace := trace w @ [SetTimer (timer_count w) RestartIdleT a 1000]\<rparr>"
    using assms(1-3) by (simp add: e_def onSearch_def restartIdle_def store_defs)
  have c5: "trace e = trace w @ [SetTimer (timer_count w) RestartIdleT a 1000]"
    and c6: "pending e = remove1 (RSearch, a) (pending w)"
    by (simp_all add: e)
  have c7: "step (SearchDone a False None) w = e"
    by (simp add: e_def onSearch_def)
  have f: "trace (step (TimerFire (timer_count w)) e) =
      trace w @ [SetTimer (timer_count w) RestartIdleT a 1000, Idle c]"
    using assms(2,3)
    by (simp add: e find_fresh_timer [OF fresh] restartIdle_fired_def store_defs)
  have run2: "run [SearchDone a False (Some []), TimerFire (timer_count w)] w =
      step (TimerFire (timer_count w)) e"
    by (simp only: run_Cons run_Nil e_def)
  show ?thesis
    unfolding run2 c7 using c1 c2 c3 c4 c5 c6 f unfolding e_def by blast
qed

theorem fetch_last_ten_witness:
  "trace (step (SearchDone 0 False (Some [1, 2, 3, 4, 5, 6, 7, 8, 9, 10, 11, 12]))
            (step (MailEv 0) listening)) =
     [Connect 0, SetTimer 0 WatchdogT 0 WATCHDOG_INTERVAL, OpenBox 0, Idle 0, IdleStop 0,
      Search 0, Fetch 0 [3, 4, 5, 6, 7, 8, 9, 10, 11, 12]]
   \<and> trace (run [SearchDone 0 False (Some []), TimerFire 1] (step (MailEv 0) listening)) =
     [Connect 0, SetTimer 0 WatchdogT 0 WATCHDOG_INTERVAL, OpenBox 0, Idle 0, IdleStop 0,
      Search 0, SetTimer 1 RestartIdleT 0 1000, Idle 0]"
proof -
  define w where "w = step (MailEv 0) listening"
  have w: "w = listening\<lparr>pending := [(RSearch, 0)],
       trace := trace listening @ [IdleStop 0, Search 0]\<rparr>"
    by (simp add: w_def listening_world fetchNewEmails_def store_defs)
  have h: "owed RSearch 0 w" "connection (account w 0) = Some 0" "isConnected (account w 0)"
      "timers_fresh w"
    by (simp_all add: w listening_world owed_def account_def timers_fresh_def)
  have tc: "timer_count w = 1" by (simp add: w listening_world)
  have tr: "trace w = [Connect 0, SetTimer 0 WatchdogT 0 WATCHDOG_INTERVAL, OpenBox 0,
      Idle 0, IdleStop 0, Search 0]"
    by (simp add: w listening_world)
  have sl: "slice_last 10 [1, 2, 3, 4, 5, 6, 7, 8, 9, 10, 11, 12::nat] =
      [3, 4, 5, 6, 7, 8, 9, 10, 11, 12]"
    by (simp add: slice_last_def)
  from fetch_last_ten [OF h, of "[1, 2, 3, 4, 5, 6, 7, 8, 9, 10, 11, 12]"] show ?thesis
    unfolding w_def [symmetric] tc tr sl by simp
qed

section \<open>Stopping a session\<close>

text \<open>
  C5 at a failing input. Account "acct-1" is listening, a new-activity signal starts a
  fetch cycle and the search finds nothing, so restartIdle sets its timeout (timer 1);
  then stopImap is called. The watchdog (timer 0) is cleared and the status query finds
  no session, but the timeout of restartIdle is still pending: its handle was never
  stored in idleTimer, the only handle besides the watchdog that cleanupTimers clears.
  When it fires after the stop, idle is called on the connection that was ended.
\<close>

theorem stop_leaves_restart_timer:
  "timers (run [MailEv 0, SearchDone 0 False (Some [])] listening) =
     [\<lparr>tid = 0, kind = WatchdogT, timer_owner = 0, delay = WATCHDOG_INTERVAL\<rparr>,
      \<lparr>tid = 1, kind = RestartIdleT, timer_owner = 0, delay = 1000\<rparr>]
   \<and> timers (stopImap ''acct-1'' (run [MailEv 0, SearchDone 0 False (Some [])] listening)) =
     [\<lparr>tid = 1, kind = RestartIdleT, timer_owner = 0, delay = 1000\<rparr>]
   \<and> getAccountStatus ''acct-1''
       (stopImap ''acct-1'' (run [MailEv 0, SearchDone 0 False (Some [])] listening)) = None
   \<and> trace (step (TimerFire 1)
       (stopImap ''acct-1'' (run [MailEv 0, SearchDone 0 False (Some [])] listening))) =
     [Connect 0, SetTimer 0 WatchdogT 0 WATCHDOG_INTERVAL, OpenBox 0, Idle 0, IdleStop 0,
      Search 0, SetTimer 1 RestartIdleT 0 1000, ClearTimer 0, EndCall 0, Idle 0]"
proof -
  define w where "w = run [MailEv 0, SearchDone 0 False (Some [])] listening"
  have w: "w = listening\<lparr>
       timers := [\<lparr>tid = 0, kind = WatchdogT, timer_owner = 0, delay = WATCHDOG_INTERVAL\<rparr>,
                  \<lparr>tid = 1, kind = RestartIdleT, timer_owner = 0, delay = 1000\<rparr>],
       timer_count := 2,
       trace := trace listening @ [IdleStop 0, Search 0, SetTimer 1 RestartIdleT 0 1000]\<rparr>"
    by (simp add: w_def run_def listening_world fetchNewEmails_def onSearch_def
          restartIdle_def store_defs)
  define s where "s = stopImap ''acct-1'' w"
  have s: "s = w\<lparr>accounts := [],
       heap := [(heap listening ! 0)\<lparr>watchdogTimer := None\<rparr>],
       timers := [\<lparr>tid = 1, kind = RestartIdleT, timer_owner = 0, delay = 1000\<rparr>],
       trace := trace w @ [ClearTimer 0, EndCall 0]\<rparr>"
    by (simp add: s_def w stopImap_def cleanupTimers_def listening_world store_defs
          new_account_def Let_def)
  have c1: "timers w = [\<lparr>tid = 0, kind = WatchdogT, timer_owner = 0, delay = WATCHDOG_INTERVAL\<rparr>,
      \<lparr>tid = 1, kind = RestartIdleT, timer_owner = 0, delay = 1000\<rparr>]"
    by (simp add: w)
  have c2: "timers s = [\<lparr>tid = 1, kind = RestartIdleT, timer_owner = 0, delay = 1000\<rparr>]"
    by (simp add: s)
  have c3: "getAccountStatus ''acct-1'' s = None"
    by (simp add: s getAccountStatus_def)
  have c4: "trace (step (TimerFire 1) s) =
     [Connect 0, SetTimer 0 WatchdogT 0 WATCHDOG_INTERVAL, OpenBox 0, Idle 0, IdleStop 0,
      Search 0, SetTimer 1 RestartIdleT 0 1000, ClearTimer 0, EndCall 0, Idle 0]"
    by (simp add: s w listening_world restartIdle_fired_def store_defs new_account_def)
  show ?thesis
    unfolding s_def [symmetric] w_def [symmetric] using c1 c2 c3 c4 by blast
qed

end
